theory Spec2Isabelle
  imports Main
begin

section \<open>Errors\<close>

text \<open>
  Everything the TypeScript code throws is a value here. \<open>AppError\<close> is the class of
  \<^verbatim>\<open>errorHandler.ts\<close> (message and HTTP status); \<open>JsError\<close> is any other instance of
  \<^verbatim>\<open>Error\<close> (a \<^verbatim>\<open>TypeError\<close>, the \<^verbatim>\<open>Error\<close> a rejected fetch carries);
  \<open>NonError\<close> is a thrown value that is not an \<^verbatim>\<open>Error\<close> instance.
\<close>

datatype error = AppError string nat | JsError string | NonError string

fun instanceofError :: "error \<Rightarrow> bool" where
  "instanceofError (AppError m s) = True"
| "instanceofError (JsError m) = True"
| "instanceofError (NonError v) = False"

fun message :: "error \<Rightarrow> string" where
  "message (AppError m s) = m"
| "message (JsError m) = m"
| "message (NonError v) = []"

section \<open>The Sync Dispatcher (DataSynchronizer.ts)\<close>

subsection \<open>Data\<close>

text \<open>
  \<^verbatim>\<open>interface SyncData { id: string; metadata?: unknown; [key: string]: unknown }\<close>.
  The field \<open>sid\<close> is the source's \<^verbatim>\<open>id\<close>; \<open>metadata\<close> is \<open>None\<close> when the field is
  absent or falsy (the code only tests its truthiness); \<open>extras\<close> holds the remaining
  keys. An element of a submitted array is a \<open>SyncData option\<close>: \<open>None\<close> is the
  JavaScript \<^verbatim>\<open>null\<close>, which the tests of the repository do submit.
\<close>

record 'm SyncData =
  sid :: string
  metadata :: "'m option"
  extras :: "(string \<times> string) list"

type_synonym 'm item = "'m SyncData option"

text \<open>\<^verbatim>\<open>T | T[]\<close>: what \<^verbatim>\<open>Array.isArray\<close> tells apart.\<close>

datatype 'a data = Single 'a | Many "'a list"

fun toArray :: "'a data \<Rightarrow> 'a list" where
  "toArray (Many xs) = xs"
| "toArray (Single x) = [x]"

text \<open>
  \<^verbatim>\<open>interface SyncResult<T> { results: T[]; errors: Array<{id: string; error: string}> }\<close>.
  The results are what the endpoint answered, so they have a type of their own.
\<close>

record 'r SyncResult =
  results :: "'r list"
  errors :: "(string \<times> string) list"

text \<open>
  The request handed to \<^verbatim>\<open>fetchWithTimeout\<close>. The body is
  \<^verbatim>\<open>JSON.stringify(data)\<close>, kept as the data it serialises, or absent
  (\<^verbatim>\<open>undefined\<close>).
\<close>

datatype 'a body = JSON_stringify "'a data"

record 'a request =
  url :: string
  method_ :: string
  headers :: "(string \<times> string) list"
  body :: "'a body option"

text \<open>
  The part of a node-fetch \<^verbatim>\<open>Response\<close> the code reads. \<open>json\<close> is the outcome of
  \<^verbatim>\<open>response.json()\<close>, which may reject.
\<close>

record 'r response =
  ok :: bool
  status :: nat
  statusText :: string
  json :: "error + 'r data"

subsection \<open>Collaborators and mutable world\<close>

text \<open>
  The remote endpoint answers a request knowing the requests made before it, so a
  scripted endpoint (first call fails, second succeeds) is a value of this type. A
  rejected fetch (network failure, timeout) is \<open>Inl\<close>. The metadata service is a pair of
  fallible functions; the access token is the constructor argument.
\<close>

record ('m, 'am, 'r) env =
  accessToken :: string
  net :: "'m item request list \<Rightarrow> 'm item request \<Rightarrow> error + 'r response"
  convertToAppleMetadata :: "'m \<Rightarrow> error + 'am"
  saveMetadata :: "string \<Rightarrow> 'am \<Rightarrow> error + unit"

text \<open>
  The world records every network call in order and every backoff delay slept
  (milliseconds).
\<close>

record 'a world =
  calls :: "'a request list"
  slept :: "nat list"

definition BASE_URL :: string where
  "BASE_URL = ''https://api.icloud.com''"

definition MAX_RETRIES :: nat where
  "MAX_RETRIES = 5"

definition BATCH_SIZE :: nat where
  "BATCH_SIZE = 100"

definition INITIAL_BACKOFF :: nat where
  "INITIAL_BACKOFF = 1000"

subsection \<open>retryOperation\<close>

text \<open>
  \<^verbatim>\<open>for (let i = 0; i < retries; i++) { try { return await operation(); } catch (error) {
  if (i === retries - 1) throw error; ...sleep INITIAL_BACKOFF * 2^i... } }
  throw new AppError('Max retries reached', 500);\<close>
\<close>

function retryFrom ::
  "('a world \<Rightarrow> (error + 'x) \<times> 'a world) \<Rightarrow> nat \<Rightarrow> nat \<Rightarrow> 'a world \<Rightarrow> (error + 'x) \<times> 'a world"
where
  "retryFrom operation retries i w =
     (if i < retries then
        (case operation w of
           (Inr v, w') \<Rightarrow> (Inr v, w')
         | (Inl e, w') \<Rightarrow>
             if i = retries - 1 then (Inl e, w')
             else retryFrom operation retries (i + 1)
                    (w'\<lparr>slept := slept w' @ [INITIAL_BACKOFF * 2 ^ i]\<rparr>))
      else (Inl (AppError ''Max retries reached'' 500), w))"
  by pat_completeness auto
termination
  by (relation "measure (\<lambda>(operation, retries, i, w). retries - i)") auto

declare retryFrom.simps [simp del]

text \<open>Every caller in the file leaves \<^verbatim>\<open>retries\<close> at its default, \<^verbatim>\<open>MAX_RETRIES\<close>.\<close>

definition retryOperation ::
  "('a world \<Rightarrow> (error + 'x) \<times> 'a world) \<Rightarrow> 'a world \<Rightarrow> (error + 'x) \<times> 'a world"
where
  "retryOperation operation = retryFrom operation MAX_RETRIES 0"

subsection \<open>singleSync\<close>

definition fetchWithTimeout ::
  "('a request list \<Rightarrow> 'a request \<Rightarrow> error + 'r response) \<Rightarrow> 'a request \<Rightarrow> 'a world
     \<Rightarrow> (error + 'r response) \<times> 'a world"
where
  "fetchWithTimeout nt req w = (nt (calls w) req, w\<lparr>calls := calls w @ [req]\<rparr>)"

definition mkRequest :: "string \<Rightarrow> string \<Rightarrow> 'a data \<Rightarrow> string \<Rightarrow> 'a request" where
  "mkRequest token endpoint dat meth =
     \<lparr>url = BASE_URL @ ''/'' @ endpoint,
      method_ = meth,
      headers = [(''Authorization'', ''Bearer '' @ token),
                 (''Content-Type'', ''application/json'')],
      body = (if meth \<noteq> ''GET'' then Some (JSON_stringify dat) else None)\<rparr>"

text \<open>
  The metadata side effect for one element: reading \<^verbatim>\<open>item.metadata\<close> of
  \<^verbatim>\<open>null\<close> throws a TypeError; a truthy metadata is converted and saved.
\<close>

definition persistItem :: "('m, 'am, 'r) env \<Rightarrow> 'm item \<Rightarrow> error + unit" where
  "persistItem ev item =
     (case item of
        None \<Rightarrow> Inl (JsError ''Cannot read properties of null (reading 'metadata')'')
      | Some r \<Rightarrow>
          (case metadata r of
             None \<Rightarrow> Inr ()
           | Some m \<Rightarrow>
               (case convertToAppleMetadata ev m of
                  Inl e \<Rightarrow> Inl e
                | Inr am \<Rightarrow> saveMetadata ev (sid r) am)))"

text \<open>
  \<^verbatim>\<open>Promise.all(data.map(async item => ...))\<close> rejects as soon as one element's promise
  rejects; the model reports the first failing element in array order.
\<close>

fun persistAll :: "('m, 'am, 'r) env \<Rightarrow> 'm item list \<Rightarrow> error + unit" where
  "persistAll ev [] = Inr ()"
| "persistAll ev (x # xs) =
     (case persistItem ev x of
        Inl e \<Rightarrow> Inl e
      | Inr u \<Rightarrow> persistAll ev xs)"

fun persistMetadata :: "('m, 'am, 'r) env \<Rightarrow> 'm item data \<Rightarrow> error + unit" where
  "persistMetadata ev (Many xs) = persistAll ev xs"
| "persistMetadata ev (Single x) = persistItem ev x"

text \<open>The body of the \<^verbatim>\<open>try\<close> block of \<^verbatim>\<open>singleSync\<close>, lines 92 to 124.\<close>

definition singleSyncTry ::
  "('m, 'am, 'r) env \<Rightarrow> string \<Rightarrow> 'm item data \<Rightarrow> string \<Rightarrow> 'm item world
     \<Rightarrow> (error + 'r data) \<times> 'm item world"
where
  "singleSyncTry ev endpoint dat meth w =
     (case retryOperation (fetchWithTimeout (net ev) (mkRequest (accessToken ev) endpoint dat meth)) w of
        (Inl e, w') \<Rightarrow> (Inl e, w')
      | (Inr resp, w') \<Rightarrow>
          if \<not> ok resp then
            (Inl (AppError (''Failed to sync data: '' @ statusText resp) (status resp)), w')
          else
            (case json resp of
               Inl e \<Rightarrow> (Inl e, w')
             | Inr responseData \<Rightarrow>
                 (case persistMetadata ev dat of
                    Inl e \<Rightarrow> (Inl e, w')
                  | Inr u \<Rightarrow> (Inr responseData, w'))))"

text \<open>
  The \<^verbatim>\<open>catch\<close> of lines 125 to 128 replaces whatever was thrown, the status-carrying
  AppError of line 104 included, by \<^verbatim>\<open>new AppError('Failed to sync data', 500)\<close>.
\<close>

definition singleSync ::
  "('m, 'am, 'r) env \<Rightarrow> string \<Rightarrow> 'm item data \<Rightarrow> string \<Rightarrow> 'm item world
     \<Rightarrow> (error + 'r data) \<times> 'm item world"
where
  "singleSync ev endpoint dat meth w =
     (case singleSyncTry ev endpoint dat meth w of
        (Inl e, w') \<Rightarrow> (Inl (AppError ''Failed to sync data'' 500), w')
      | (Inr responseData, w') \<Rightarrow> (Inr responseData, w'))"

subsection \<open>batchSync and syncData\<close>

text \<open>
  The handler of a failed batch, lines 74 to 79: \<^verbatim>\<open>batch.map((item) => ({ id: item.id,
  error: ... }))\<close>. Reading \<^verbatim>\<open>item.id\<close> of a \<^verbatim>\<open>null\<close> element throws a TypeError
  out of the handler, and so out of \<^verbatim>\<open>batchSync\<close>.
\<close>

fun failedEntries :: "error \<Rightarrow> 'm item list \<Rightarrow> error + (string \<times> string) list" where
  "failedEntries err [] = Inr []"
| "failedEntries err (None # xs) = Inl (JsError ''Cannot read properties of null (reading 'id')'')"
| "failedEntries err (Some r # xs) =
     (case failedEntries err xs of
        Inl e \<Rightarrow> Inl e
      | Inr es \<Rightarrow>
          Inr ((sid r, if instanceofError err then message err
                       else ''Unknown error while syncing batch'') # es))"

text \<open>\<^verbatim>\<open>data.slice(i, i + BATCH_SIZE)\<close>.\<close>

definition slice :: "'a list \<Rightarrow> nat \<Rightarrow> nat \<Rightarrow> 'a list" where
  "slice xs i j = take (j - i) (drop i xs)"

function batchLoop ::
  "('m, 'am, 'r) env \<Rightarrow> string \<Rightarrow> 'm item list \<Rightarrow> string \<Rightarrow> nat \<Rightarrow> 'r SyncResult
     \<Rightarrow> 'm item world \<Rightarrow> (error + 'r SyncResult) \<times> 'm item world"
where
  "batchLoop ev endpoint dat meth i acc w =
     (if i < length dat then
        (let batch = slice dat i (i + BATCH_SIZE) in
         case retryOperation (singleSync ev endpoint (Many batch) meth) w of
           (Inr result, w') \<Rightarrow>
             batchLoop ev endpoint dat meth (i + BATCH_SIZE)
               (acc\<lparr>results := results acc @ toArray result\<rparr>) w'
         | (Inl err, w') \<Rightarrow>
             (case failedEntries err batch of
                Inl e \<Rightarrow> (Inl e, w')
              | Inr es \<Rightarrow>
                  batchLoop ev endpoint dat meth (i + BATCH_SIZE)
                    (acc\<lparr>errors := errors acc @ es\<rparr>) w'))
      else (Inr acc, w))"
  by pat_completeness auto
termination
  by (relation "measure (\<lambda>(ev, endpoint, dat, meth, i, acc, w). length dat - i)")
     (auto simp: BATCH_SIZE_def)

declare batchLoop.simps [simp del]

definition batchSync ::
  "('m, 'am, 'r) env \<Rightarrow> string \<Rightarrow> 'm item list \<Rightarrow> string \<Rightarrow> 'm item world
     \<Rightarrow> (error + 'r SyncResult) \<times> 'm item world"
where
  "batchSync ev endpoint dat meth w =
     batchLoop ev endpoint dat meth 0 \<lparr>results = [], errors = []\<rparr> w"

fun isLargeArray :: "'a data \<Rightarrow> bool" where
  "isLargeArray (Many xs) = (length xs > BATCH_SIZE)"
| "isLargeArray (Single x) = False"

definition syncData ::
  "('m, 'am, 'r) env \<Rightarrow> string \<Rightarrow> 'm item data \<Rightarrow> string \<Rightarrow> 'm item world
     \<Rightarrow> (error + 'r SyncResult) \<times> 'm item world"
where
  "syncData ev endpoint dat meth w =
     (if isLargeArray dat then batchSync ev endpoint (toArray dat) meth w
      else
        (case singleSync ev endpoint dat meth w of
           (Inl e, w') \<Rightarrow> (Inl e, w')
         | (Inr result, w') \<Rightarrow> (Inr \<lparr>results = toArray result, errors = []\<rparr>, w')))"


subsection \<open>Endpoints and submissions used as concrete inputs\<close>

text \<open>
  The decimal rendering of a number, as the template literal \<^verbatim>\<open>`item-${i}`\<close> of the
  repository's tests produces it.
\<close>

fun showNat :: "nat \<Rightarrow> string" where
  "showNat n =
     (if n < 10 then [''0123456789'' ! n]
      else showNat (n div 10) @ [''0123456789'' ! (n mod 10)])"

declare showNat.simps [simp del]

text \<open>
  \<^verbatim>\<open>Array(250).fill(null).map((_, i) => ({ id: `item-${i}`, data: `test-${i}` }))\<close>
\<close>

definition testRecord :: "nat \<Rightarrow> unit SyncData" where
  "testRecord i =
     \<lparr>sid = ''item-'' @ showNat i, metadata = None, extras = [(''data'', ''test-'' @ showNat i)]\<rparr>"

definition records :: "nat \<Rightarrow> nat \<Rightarrow> unit item list" where
  "records i j = map (\<lambda>k. Some (testRecord k)) [i..<j]"

definition largeDataset :: "unit item list" where
  "largeDataset = records 0 250"

definition emptyWorld :: "'a world" where
  "emptyWorld = \<lparr>calls = [], slept = []\<rparr>"

text \<open>The mock response of the tests: status 200 and the one object \<^verbatim>\<open>{ success: true }\<close>.\<close>

definition successResponse :: "string response" where
  "successResponse = \<lparr>ok = True, status = 200, statusText = ''OK'', json = Inr (Single ''success'')\<rparr>"

definition healthyEnv :: "(unit, unit, string) env" where
  "healthyEnv =
     \<lparr>accessToken = ''test-token'',
      net = (\<lambda>h req. Inr successResponse),
      convertToAppleMetadata = (\<lambda>m. Inr ()),
      saveMetadata = (\<lambda>i am. Inr ())\<rparr>"

text \<open>An endpoint on which every fetch is rejected with \<^verbatim>\<open>new Error('Network error')\<close>.\<close>

definition rejectingEnv :: "(unit, unit, string) env" where
  "rejectingEnv = healthyEnv\<lparr>net := (\<lambda>h req. Inl (JsError ''Network error''))\<rparr>"

text \<open>
  An endpoint that rejects, on every attempt, exactly the requests carrying the second
  batch of \<open>largeDataset\<close> (items 100 to 199), and accepts every other request.
\<close>

definition secondBatchFailsEnv :: "(unit, unit, string) env" where
  "secondBatchFailsEnv = healthyEnv\<lparr>net := (\<lambda>h req.
      if body req = Some (JSON_stringify (Many (records 100 200)))
      then Inl (JsError ''Network error'') else Inr successResponse)\<rparr>"

text \<open>
  An endpoint that answers a request with the records it was sent, one result per
  record, except that it rejects every request carrying the second batch of
  \<open>largeDataset\<close> and every request without a body.
\<close>

definition echoEnv :: "(unit, unit, unit item) env" where
  "echoEnv =
     \<lparr>accessToken = ''test-token'',
      net = (\<lambda>h req. case body req of
               None \<Rightarrow> Inl (JsError ''Network error'')
             | Some (JSON_stringify d) \<Rightarrow>
                 if d = Many (records 100 200) then Inl (JsError ''Network error'')
                 else Inr \<lparr>ok = True, status = 200, statusText = ''OK'', json = Inr d\<rparr>),
      convertToAppleMetadata = (\<lambda>m. Inr ()),
      saveMetadata = (\<lambda>i am. Inr ())\<rparr>"

text \<open>The contact of the specification's scenario, \<^verbatim>\<open>{id: "c1", name: "John"}\<close>.\<close>

definition contactJohn :: "unit SyncData" where
  "contactJohn = \<lparr>sid = ''c1'', metadata = None, extras = [(''name'', ''John'')]\<rparr>"

text \<open>
  A property an endpoint may have: whenever it answers a request that carries records,
  its payload holds one result per record sent.
\<close>

definition onePerRecord :: "('m, 'am, 'r) env \<Rightarrow> bool" where
  "onePerRecord ev =
     (\<forall>h req resp p d. net ev h req = Inr resp \<and> json resp = Inr p \<and>
         body req = Some (JSON_stringify d) \<longrightarrow> length (toArray p) = length (toArray d))"

section \<open>The Conflict Resolution Engine (ConflictResolutionService.ts)\<close>

subsection \<open>JavaScript values and the object store\<close>

text \<open>
  Records handed to the engine are JavaScript objects: they have identity, can be shared
  and can contain themselves. A value is a primitive or a reference into a store of
  cells; a cell is a plain object (its own enumerable properties, in key order) or an
  array. Numbers are integers here. A reference is equal to another exactly when it is
  the same address, which is the equality a \<^verbatim>\<open>Set\<close> and a \<^verbatim>\<open>WeakMap\<close> use on objects.
  There are no function values: the methods that every object inherits from
  \<^verbatim>\<open>Object.prototype\<close> are known by their names only.
\<close>

datatype val = VUndefined | VNull | VBool bool | VNum int | VStr string | VRef nat

datatype cell = Obj "(string \<times> val) list" | Arr "val list"

type_synonym store = "cell list"

definition cellAt :: "store \<Rightarrow> nat \<Rightarrow> cell option" where
  "cellAt h a = (if a < length h then Some (h ! a) else None)"

text \<open>
  \<^verbatim>\<open>function isObject(item) { return item && typeof item === 'object' && !Array.isArray(item) }\<close>
\<close>

fun isObject :: "store \<Rightarrow> val \<Rightarrow> bool" where
  "isObject h (VRef a) = (case cellAt h a of Some (Obj kvs) \<Rightarrow> True | _ \<Rightarrow> False)"
| "isObject h v = False"

fun isArray :: "store \<Rightarrow> val \<Rightarrow> bool" where
  "isArray h (VRef a) = (case cellAt h a of Some (Arr vs) \<Rightarrow> True | _ \<Rightarrow> False)"
| "isArray h v = False"

text \<open>\<^verbatim>\<open>Object.keys(o)\<close>: the own enumerable keys of a plain object, in order.\<close>

fun objectKeys :: "store \<Rightarrow> val \<Rightarrow> string list" where
  "objectKeys h (VRef a) = (case cellAt h a of Some (Obj kvs) \<Rightarrow> map fst kvs | _ \<Rightarrow> [])"
| "objectKeys h v = []"

text \<open>
  The elements of an array, or the characters of a string, under their index keys
  \<^verbatim>\<open>"0"\<close>, \<^verbatim>\<open>"1"\<close>, ...
\<close>

definition indexed :: "val list \<Rightarrow> (string \<times> val) list" where
  "indexed vs = zip (map showNat [0..<length vs]) vs"

text \<open>
  \<^verbatim>\<open>x[key]\<close> and \<^verbatim>\<open>x.key\<close>. Reading a property of \<^verbatim>\<open>undefined\<close> or of \<^verbatim>\<open>null\<close>
  throws a \<^verbatim>\<open>TypeError\<close>. A plain object gives its own property, an array or a string
  gives its length and its elements by index, and every other read gives
  \<^verbatim>\<open>undefined\<close>. That includes the read of an inherited method, a function in
  JavaScript: \<open>deepMerge\<close> cannot tell the two apart, since neither is iterable,
  neither has properties to spread and neither is an object for \<open>isObject\<close>.
\<close>

definition ownProp :: "(string \<times> val) list \<Rightarrow> string \<Rightarrow> val" where
  "ownProp kvs key = (case map_of kvs key of Some v \<Rightarrow> v | None \<Rightarrow> VUndefined)"

definition elementProp :: "val list \<Rightarrow> string \<Rightarrow> val" where
  "elementProp vs key =
     (if key = ''length'' then VNum (int (length vs)) else ownProp (indexed vs) key)"

fun getProp :: "store \<Rightarrow> val \<Rightarrow> string \<Rightarrow> error + val" where
  "getProp h VUndefined key = Inl (JsError ''Cannot read properties of undefined'')"
| "getProp h VNull key = Inl (JsError ''Cannot read properties of null'')"
| "getProp h (VRef a) key =
     Inr (case cellAt h a of
            Some (Obj kvs) \<Rightarrow> ownProp kvs key
          | Some (Arr vs) \<Rightarrow> elementProp vs key
          | None \<Rightarrow> VUndefined)"
| "getProp h (VStr s) key = Inr (elementProp (map (\<lambda>c. VStr [c]) s) key)"
| "getProp h (VBool b) key = Inr VUndefined"
| "getProp h (VNum n) key = Inr VUndefined"

text \<open>
  \<^verbatim>\<open>key in target\<close>, which \<open>deepMerge\<close> asks only of a \<open>target\<close> that passed \<open>isObject\<close>,
  a plain object. It holds of the object's own keys and of the names that every object
  inherits from \<^verbatim>\<open>Object.prototype\<close>.
\<close>

definition objectPrototypeKeys :: "string list" where
  "objectPrototypeKeys =
     [''constructor'', ''__defineGetter__'', ''__defineSetter__'', ''hasOwnProperty'',
      ''__lookupGetter__'', ''__lookupSetter__'', ''isPrototypeOf'', ''propertyIsEnumerable'',
      ''toString'', ''valueOf'', ''__proto__'', ''toLocaleString'']"

fun hasKey :: "store \<Rightarrow> val \<Rightarrow> string \<Rightarrow> bool" where
  "hasKey h (VRef a) key =
     (case cellAt h a of
        Some (Obj kvs) \<Rightarrow> key \<in> set (map fst kvs) \<or> key \<in> set objectPrototypeKeys
      | _ \<Rightarrow> False)"
| "hasKey h v key = False"

text \<open>
  \<^verbatim>\<open>output[key] = v\<close> and \<^verbatim>\<open>Object.assign(output, { [key]: v })\<close>: an existing key keeps
  its place, a new key goes last.
\<close>

fun setKey :: "(string \<times> val) list \<Rightarrow> string \<Rightarrow> val \<Rightarrow> (string \<times> val) list" where
  "setKey [] key v = [(key, v)]"
| "setKey ((k, w) # kvs) key v = (if k = key then (key, v) # kvs else (k, w) # setKey kvs key v)"

definition setProp :: "store \<Rightarrow> nat \<Rightarrow> string \<Rightarrow> val \<Rightarrow> store" where
  "setProp h a key v =
     (case cellAt h a of Some (Obj kvs) \<Rightarrow> h[a := Obj (setKey kvs key v)] | _ \<Rightarrow> h)"

text \<open>
  \<^verbatim>\<open>{ ...target }\<close>: the own enumerable properties of an object, the indexed elements
  of an array or of a string, and nothing for any other value.
\<close>

fun spreadProps :: "store \<Rightarrow> val \<Rightarrow> (string \<times> val) list" where
  "spreadProps h (VRef a) =
     (case cellAt h a of Some (Obj kvs) \<Rightarrow> kvs | Some (Arr vs) \<Rightarrow> indexed vs | None \<Rightarrow> [])"
| "spreadProps h (VStr s) = indexed (map (\<lambda>c. VStr [c]) s)"
| "spreadProps h v = []"

text \<open>
  \<^verbatim>\<open>[...x]\<close>: the elements of an array or the characters of a string; any other value,
  \<^verbatim>\<open>undefined\<close> and plain objects included, is not iterable and the spread throws.
\<close>

fun iterate :: "store \<Rightarrow> val \<Rightarrow> error + val list" where
  "iterate h (VRef a) =
     (case cellAt h a of
        Some (Arr vs) \<Rightarrow> Inr vs
      | _ \<Rightarrow> Inl (JsError ''object is not iterable''))"
| "iterate h (VStr s) = Inr (map (\<lambda>c. VStr [c]) s)"
| "iterate h v = Inl (JsError ''value is not iterable'')"

text \<open>
  \<^verbatim>\<open>Array.from(new Set(xs))\<close>: each element is added in turn unless the set already has
  it, so the first occurrence of every element stays, in order.
\<close>

definition setAdd :: "val list \<Rightarrow> val \<Rightarrow> val list" where
  "setAdd s x = (if x \<in> set s then s else s @ [x])"

definition arrayFromSet :: "val list \<Rightarrow> val list" where
  "arrayFromSet xs = foldl setAdd [] xs"

subsection \<open>MergeStrategy.deepMerge\<close>

text \<open>\<^verbatim>\<open>seen.get(source)\<close> on the \<^verbatim>\<open>WeakMap\<close>: only an object can be a key.\<close>

fun seenGet :: "(nat \<rightharpoonup> val) \<Rightarrow> val \<Rightarrow> val option" where
  "seenGet seen (VRef a) = seen a"
| "seenGet seen v = None"

text \<open>
  \<open>deepMerge\<close> and the body of its \<^verbatim>\<open>Object.keys(source).forEach\<close>, which recurses into
  \<open>deepMerge\<close>. The state is the store and the \<^verbatim>\<open>seen\<close> map. The first argument bounds
  the nesting depth of \<open>deepMerge\<close> calls (\<open>None\<close>: bound reached); \<open>Inl\<close> is a thrown
  error. A fresh output object, and a fresh array for every merged array field, is
  allocated at the end of the store.
\<close>

fun deepMerge ::
  "nat \<Rightarrow> val \<Rightarrow> val \<Rightarrow> store \<times> (nat \<rightharpoonup> val) \<Rightarrow> (error + val \<times> store \<times> (nat \<rightharpoonup> val)) option"
and mergeKeys ::
  "nat \<Rightarrow> val \<Rightarrow> val \<Rightarrow> nat \<Rightarrow> string list \<Rightarrow> store \<times> (nat \<rightharpoonup> val)
     \<Rightarrow> (error + store \<times> (nat \<rightharpoonup> val)) option"
where
  "deepMerge 0 target source st = None"
| "deepMerge (Suc n) target source (h, seen) =
     (case seenGet seen source of
        Some out \<Rightarrow> Some (Inr (out, h, seen))
      | None \<Rightarrow>
          (case source of
             VRef s \<Rightarrow>
               (let output = length h;
                    h1 = h @ [Obj (spreadProps h target)];
                    seen1 = seen(s \<mapsto> VRef output)
                in if isObject h1 target \<and> isObject h1 source then
                     (case mergeKeys n target source output (objectKeys h1 source) (h1, seen1) of
                        None \<Rightarrow> None
                      | Some (Inl e) \<Rightarrow> Some (Inl e)
                      | Some (Inr (h2, seen2)) \<Rightarrow> Some (Inr (VRef output, h2, seen2)))
                   else Some (Inr (VRef output, h1, seen1)))
           | _ \<Rightarrow> Some (Inl (JsError ''Invalid value used as weak map key''))))"
| "mergeKeys n target source output [] st = Some (Inr st)"
| "mergeKeys n target source output (key # keys) (h, seen) =
     (case getProp h source key of
        Inl e \<Rightarrow> Some (Inl e)
      | Inr sv \<Rightarrow>
          if isArray h sv then
            (case getProp h target key of
               Inl e \<Rightarrow> Some (Inl e)
             | Inr tv \<Rightarrow>
                 (case iterate h tv of
                    Inl e \<Rightarrow> Some (Inl e)
                  | Inr tvs \<Rightarrow>
                      (case iterate h sv of
                         Inl e \<Rightarrow> Some (Inl e)
                       | Inr svs \<Rightarrow>
                           mergeKeys n target source output keys
                             (setProp (h @ [Arr (arrayFromSet (tvs @ svs))]) output key
                                (VRef (length h)), seen))))
          else if isObject h sv then
            (if \<not> hasKey h target key then
               mergeKeys n target source output keys (setProp h output key sv, seen)
             else
               (case getProp h target key of
                  Inl e \<Rightarrow> Some (Inl e)
                | Inr tv \<Rightarrow>
                    (case deepMerge n tv sv (h, seen) of
                       None \<Rightarrow> None
                     | Some (Inl e) \<Rightarrow> Some (Inl e)
                     | Some (Inr (r, h', seen')) \<Rightarrow>
                         mergeKeys n target source output keys (setProp h' output key r, seen'))))
          else mergeKeys n target source output keys (setProp h output key sv, seen))"

text \<open>
  \<^verbatim>\<open>MergeStrategy.resolve\<close>: \<^verbatim>\<open>this.deepMerge(cloudData, localData, new WeakMap())\<close>. A
  store of \<open>n\<close> cells cannot nest \<open>deepMerge\<close> deeper than \<open>n + 1\<close> calls, since a
  source object is entered once.
\<close>

definition mergeResolve ::
  "store \<Rightarrow> val \<Rightarrow> val \<Rightarrow> (error + val \<times> store \<times> (nat \<rightharpoonup> val)) option"
where
  "mergeResolve h localData cloudData = deepMerge (Suc (length h)) cloudData localData (h, Map.empty)"

text \<open>
  Stores that JavaScript can build from plain data: every reference inside a cell is
  the address of a cell, and every object is a \<open>plainCell\<close>. The keys of a plain cell
  are distinct; none is \<^verbatim>\<open>__proto__\<close>, which JavaScript reads and assigns as the
  prototype of the object and not as a property; and none is written in digits only,
  since JavaScript lists index keys before the others whatever the order of insertion.
  \<open>storeInv strict N\<close> says of the first \<open>N\<close> cells only, which are the records given
  to the merge, that their references stay among them; with \<open>strict\<close>, it also says
  that none of them is an array.
  \<open>unseen\<close> are those of the first \<open>N\<close> cells the \<^verbatim>\<open>seen\<close> map does not hold yet.
\<close>

definition ordinaryKey :: "string \<Rightarrow> bool" where
  "ordinaryKey key =
     (key \<noteq> ''__proto__'' \<and>
      \<not> (key \<noteq> [] \<and> list_all (\<lambda>c. c \<in> set ''0123456789'') key))"

fun plainCell :: "cell \<Rightarrow> bool" where
  "plainCell (Obj kvs) = (distinct (map fst kvs) \<and> list_all ordinaryKey (map fst kvs))"
| "plainCell (Arr vs) = True"

fun valBelow :: "nat \<Rightarrow> val \<Rightarrow> bool" where
  "valBelow N (VRef r) = (r < N)"
| "valBelow N v = True"

fun cellBelow :: "nat \<Rightarrow> cell \<Rightarrow> bool" where
  "cellBelow N (Obj kvs) = list_all (valBelow N) (map snd kvs)"
| "cellBelow N (Arr vs) = list_all (valBelow N) vs"

fun isObjCell :: "cell \<Rightarrow> bool" where
  "isObjCell (Obj kvs) = True"
| "isObjCell (Arr vs) = False"

definition wellFormed :: "store \<Rightarrow> bool" where
  "wellFormed h = (list_all (cellBelow (length h)) h \<and> list_all plainCell h)"

definition storeInv :: "bool \<Rightarrow> nat \<Rightarrow> store \<Rightarrow> bool" where
  "storeInv strict N h =
     (N \<le> length h \<and> (\<forall>a<N. cellBelow N (h ! a) \<and> (strict \<longrightarrow> isObjCell (h ! a))))"

definition unseen :: "nat \<Rightarrow> (nat \<rightharpoonup> val) \<Rightarrow> nat set" where
  "unseen N seen = {a. a < N \<and> seen a = None}"

text \<open>
  What a finished merge step leaves behind: it did not hit the depth bound; if it
  returned, the given records are intact and nothing was forgotten from \<^verbatim>\<open>seen\<close>; and
  with \<open>strict\<close>, it did return rather than throw.
\<close>

definition mergedOk ::
  "bool \<Rightarrow> nat \<Rightarrow> (nat \<rightharpoonup> val) \<Rightarrow> (error + store \<times> (nat \<rightharpoonup> val)) option \<Rightarrow> bool"
where
  "mergedOk strict N seen r =
     (case r of
        None \<Rightarrow> False
      | Some (Inl e) \<Rightarrow> \<not> strict
      | Some (Inr (h', seen')) \<Rightarrow>
          storeInv strict N h' \<and> (\<forall>a. seen a \<noteq> None \<longrightarrow> seen' a \<noteq> None))"

subsection \<open>The platform\<close>

text \<open>
  What the strategies take from the JavaScript platform: \<^verbatim>\<open>Date.parse\<close> on a string
  (\<open>None\<close> is \<^verbatim>\<open>NaN\<close>, no date); the time value of \<^verbatim>\<open>new Date(o)\<close> for an object
  \<open>o\<close>, which copies a \<^verbatim>\<open>Date\<close> and converts every other object to a primitive first,
  and can throw doing so; and \<^verbatim>\<open>JSON.stringify({ localData, cloudData })\<close>, which
  throws on a cyclic value.
\<close>

record platform =
  dateParse :: "string \<Rightarrow> int option"
  dateOfObject :: "store \<Rightarrow> nat \<Rightarrow> error + int option"
  stringifyPair :: "store \<Rightarrow> val \<Rightarrow> val \<Rightarrow> error + string"

subsection \<open>LastWriteWinsStrategy\<close>

text \<open>
  \<^verbatim>\<open>x || ''\<close>: \<open>x\<close> unless it is falsy (\<^verbatim>\<open>undefined\<close>, \<^verbatim>\<open>null\<close>, \<^verbatim>\<open>false\<close>, \<^verbatim>\<open>0\<close>
  or the empty string), and the empty string then.
\<close>

fun truthy :: "val \<Rightarrow> bool" where
  "truthy VUndefined = False"
| "truthy VNull = False"
| "truthy (VBool b) = b"
| "truthy (VNum n) = (n \<noteq> 0)"
| "truthy (VStr s) = (s \<noteq> [])"
| "truthy (VRef a) = True"

definition orEmpty :: "val \<Rightarrow> val" where
  "orEmpty x = (if truthy x then x else VStr [])"

text \<open>
  \<^verbatim>\<open>new Date(value).getTime()\<close>: the time value in milliseconds, or \<open>None\<close> for
  \<^verbatim>\<open>NaN\<close> (an invalid date). A string is parsed, and the empty string is no date.
  Any other primitive is converted to a number (\<^verbatim>\<open>true\<close> to 1, \<^verbatim>\<open>false\<close> and
  \<^verbatim>\<open>null\<close> to 0, \<^verbatim>\<open>undefined\<close> to \<^verbatim>\<open>NaN\<close>), which is a time value when it is within
  8.64e15 milliseconds of the epoch (\<^verbatim>\<open>TimeClip\<close>).
\<close>

definition timeClip :: "int \<Rightarrow> int option" where
  "timeClip t = (if \<bar>t\<bar> \<le> 8640000000000000 then Some t else None)"

fun newDate :: "platform \<Rightarrow> store \<Rightarrow> val \<Rightarrow> error + int option" where
  "newDate pf h (VStr s) = Inr (if s = [] then None else dateParse pf s)"
| "newDate pf h (VNum n) = Inr (timeClip n)"
| "newDate pf h (VBool b) = Inr (Some (if b then 1 else 0))"
| "newDate pf h VNull = Inr (Some 0)"
| "newDate pf h VUndefined = Inr None"
| "newDate pf h (VRef a) = dateOfObject pf h a"

text \<open>
  \<^verbatim>\<open>LastWriteWinsStrategy.resolve\<close>. The local date is read and built first, then the
  cloud date; either step can throw. \<^verbatim>\<open>isNaN(d.getTime())\<close> is \<open>d = None\<close>, and
  \<^verbatim>\<open>localDate >= cloudDate\<close> compares the two time values.
\<close>

definition lastWriteWins :: "platform \<Rightarrow> store \<Rightarrow> val \<Rightarrow> val \<Rightarrow> error + val" where
  "lastWriteWins pf h localData cloudData =
     (case getProp h localData ''modificationDate'' of
        Inl e \<Rightarrow> Inl e
      | Inr localField \<Rightarrow>
     (case newDate pf h (orEmpty localField) of
        Inl e \<Rightarrow> Inl e
      | Inr localDate \<Rightarrow>
     (case getProp h cloudData ''modificationDate'' of
        Inl e \<Rightarrow> Inl e
      | Inr cloudField \<Rightarrow>
     (case newDate pf h (orEmpty cloudField) of
        Inl e \<Rightarrow> Inl e
      | Inr cloudDate \<Rightarrow>
          Inr (if localDate = None \<and> cloudDate = None then localData
               else if localDate = None then cloudData
               else if cloudDate = None then localData
               else if the localDate \<ge> the cloudDate then localData else cloudData)))))"

subsection \<open>ConflictResolutionService.resolveConflict\<close>

datatype strategy = LastWriteWinsStrategy | MergeStrategy | ManualResolutionStrategy

definition strategies :: "string \<rightharpoonup> strategy" where
  "strategies =
     [''lastWriteWins'' \<mapsto> LastWriteWinsStrategy,
      ''merge'' \<mapsto> MergeStrategy,
      ''manual'' \<mapsto> ManualResolutionStrategy]"

fun resolve ::
  "platform \<Rightarrow> strategy \<Rightarrow> store \<Rightarrow> val \<Rightarrow> val \<Rightarrow> (error + val \<times> store) option"
where
  "resolve pf LastWriteWinsStrategy h localData cloudData =
     (case lastWriteWins pf h localData cloudData of
        Inl e \<Rightarrow> Some (Inl e)
      | Inr r \<Rightarrow> Some (Inr (r, h)))"
| "resolve pf MergeStrategy h localData cloudData =
     (case mergeResolve h localData cloudData of
        None \<Rightarrow> None
      | Some (Inl e) \<Rightarrow> Some (Inl e)
      | Some (Inr (v, h', seen)) \<Rightarrow> Some (Inr (v, h')))"
| "resolve pf ManualResolutionStrategy h localData cloudData =
     (case stringifyPair pf h localData cloudData of
        Inl e \<Rightarrow> Some (Inl e)
      | Inr s \<Rightarrow> Some (Inl (AppError (''Manual resolution required: '' @ s) 409)))"

fun isAppError :: "error \<Rightarrow> bool" where
  "isAppError (AppError m s) = True"
| "isAppError e = False"

text \<open>
  \<^verbatim>\<open>resolveConflict\<close>: an unknown strategy name is rejected; an \<^verbatim>\<open>AppError\<close> of the
  strategy is passed on, and anything else it throws becomes
  \<^verbatim>\<open>AppError("Failed to resolve conflict", 500)\<close>.
\<close>

definition resolveConflict ::
  "platform \<Rightarrow> store \<Rightarrow> val \<Rightarrow> val \<Rightarrow> string \<Rightarrow> (error + val \<times> store) option"
where
  "resolveConflict pf h localData cloudData strategyName =
     (case strategies strategyName of
        None \<Rightarrow> Some (Inl (AppError ''Invalid conflict resolution strategy'' 400))
      | Some strat \<Rightarrow>
          (case resolve pf strat h localData cloudData of
             None \<Rightarrow> None
           | Some (Inl e) \<Rightarrow>
               Some (Inl (if isAppError e then e else AppError ''Failed to resolve conflict'' 500))
           | Some (Inr r) \<Rightarrow> Some (Inr r)))"

subsection \<open>Records used as concrete inputs\<close>

text \<open>
  The test "should handle arrays": \<^verbatim>\<open>localData = { id: "1", array: [1, 2, 3] }\<close> at
  address 1 and \<^verbatim>\<open>cloudData = { id: "1", array: [3, 4, 5] }\<close> at address 3.
\<close>

definition arraysStore :: store where
  "arraysStore =
     [Arr [VNum 1, VNum 2, VNum 3],
      Obj [(''id'', VStr ''1''), (''array'', VRef 0)],
      Arr [VNum 3, VNum 4, VNum 5],
      Obj [(''id'', VStr ''1''), (''array'', VRef 2)]]"

text \<open>
  The test "should handle nested objects": \<^verbatim>\<open>localData = { id: "1", nested: { a: 1, b: 2 } }\<close>
  at address 1 and \<^verbatim>\<open>cloudData = { id: "1", nested: { b: 3, c: 4 } }\<close> at address 3.
\<close>

definition nestedStore :: store where
  "nestedStore =
     [Obj [(''a'', VNum 1), (''b'', VNum 2)],
      Obj [(''id'', VStr ''1''), (''nested'', VRef 0)],
      Obj [(''b'', VNum 3), (''c'', VNum 4)],
      Obj [(''id'', VStr ''1''), (''nested'', VRef 2)]]"

text \<open>
  The test "should handle circular references": \<^verbatim>\<open>localData = { id: "1" };
  localData.self = localData\<close> at address 0 and
  \<^verbatim>\<open>cloudData = { id: "1", content: "cloud" }\<close> at address 1.
\<close>

definition circularStore :: store where
  "circularStore =
     [Obj [(''id'', VStr ''1''), (''self'', VRef 0)],
      Obj [(''id'', VStr ''1''), (''content'', VStr ''cloud'')]]"

text \<open>Both records contain themselves: \<^verbatim>\<open>localData.self = localData; cloudData.self = cloudData\<close>.\<close>

definition bothCircularStore :: store where
  "bothCircularStore =
     [Obj [(''id'', VStr ''1''), (''self'', VRef 0)],
      Obj [(''id'', VStr ''1''), (''self'', VRef 1)]]"

text \<open>
  A stand-in for the platform on the records below, whose dates are strings or numbers:
  its \<^verbatim>\<open>Date.parse\<close> knows the two timestamps of the tests and rejects every other
  string, \<^verbatim>\<open>'invalid-date'\<close> included.
\<close>

definition testDateParse :: "string \<Rightarrow> int option" where
  "testDateParse s =
     (if s = ''2023-07-03T12:00:00Z'' then Some 1688385600000
      else if s = ''2023-07-03T13:00:00Z'' then Some 1688389200000
      else None)"

definition testPlatform :: platform where
  "testPlatform =
     \<lparr>dateParse = testDateParse, dateOfObject = (\<lambda>h a. Inr None),
      stringifyPair = (\<lambda>h l c. Inr ''{}'')\<rparr>"

text \<open>
  Two records at addresses 0 (local) and 1 (cloud) with the given
  \<^verbatim>\<open>modificationDate\<close> fields, absent when \<open>None\<close>.
\<close>

definition datedRecord :: "string \<Rightarrow> string option \<Rightarrow> cell" where
  "datedRecord content d =
     Obj ([(''id'', VStr ''1''), (''content'', VStr content)] @
          (case d of None \<Rightarrow> [] | Some s \<Rightarrow> [(''modificationDate'', VStr s)]))"

definition datedStore :: "string option \<Rightarrow> string option \<Rightarrow> store" where
  "datedStore l c = [datedRecord ''local'' l, datedRecord ''cloud'' c]"

text \<open>
  A local record whose \<^verbatim>\<open>modificationDate\<close> is the number 1688389200000 (13:00 as epoch
  milliseconds) at address 0, and a cloud record dated \<^verbatim>\<open>'2023-07-03T12:00:00Z'\<close> at
  address 1.
\<close>

definition numericDateStore :: store where
  "numericDateStore =
     [Obj [(''id'', VStr ''1''), (''content'', VStr ''local''),
           (''modificationDate'', VNum 1688389200000)],
      datedRecord ''cloud'' (Some ''2023-07-03T12:00:00Z'')]"

text \<open>
  A local record with a field called \<^verbatim>\<open>toString\<close>,
  \<^verbatim>\<open>localData = { id: "1", toString: { a: 1 } }\<close> at address 1, and
  \<^verbatim>\<open>cloudData = { id: "1" }\<close> at address 2, which has no such field of its own.
\<close>

definition inheritedKeyStore :: store where
  "inheritedKeyStore =
     [Obj [(''a'', VNum 1)],
      Obj [(''id'', VStr ''1''), (''toString'', VRef 0)],
      Obj [(''id'', VStr ''1'')]]"

section \<open>The Motion-Photo Transcoder (LivePhotoService.ts)\<close>

subsection \<open>Buffers and files\<close>

text \<open>
  A \<^verbatim>\<open>Buffer\<close> is a list of bytes; Isabelle's \<open>char\<close> is a byte. The file system is a
  map from paths to contents.
\<close>

type_synonym buffer = "char list"

type_synonym files = "string \<rightharpoonup> buffer"

text \<open>
  \<^verbatim>\<open>buffer.indexOf(pattern)\<close>: the index of the first occurrence, or \<open>-1\<close>. The counter
  is the index of the head of the remaining bytes.
\<close>

fun indexOfFrom :: "nat \<Rightarrow> buffer \<Rightarrow> buffer \<Rightarrow> int" where
  "indexOfFrom i pat [] = (if pat = [] then int i else -1)"
| "indexOfFrom i pat (x # xs) =
     (if take (length pat) (x # xs) = pat then int i else indexOfFrom (Suc i) pat xs)"

definition indexOf :: "buffer \<Rightarrow> buffer \<Rightarrow> int" where
  "indexOf b pat = indexOfFrom 0 pat b"

text \<open>
  \<^verbatim>\<open>buffer.slice(start, end)\<close> and \<^verbatim>\<open>buffer.slice(start)\<close>: a negative index counts
  from the end, and both ends are clamped to the buffer.
\<close>

definition clampIndex :: "buffer \<Rightarrow> int \<Rightarrow> nat" where
  "clampIndex b i = (if i < 0 then nat (int (length b) + i) else min (nat i) (length b))"

definition bufSlice :: "buffer \<Rightarrow> int \<Rightarrow> int \<Rightarrow> buffer" where
  "bufSlice b start fin = take (clampIndex b fin - clampIndex b start) (drop (clampIndex b start) b)"

definition bufSliceFrom :: "buffer \<Rightarrow> int \<Rightarrow> buffer" where
  "bufSliceFrom b start = drop (clampIndex b start) b"

definition readFile :: "files \<Rightarrow> string \<Rightarrow> error + buffer" where
  "readFile fs path = (case fs path of None \<Rightarrow> Inl (JsError ''ENOENT'') | Some b \<Rightarrow> Inr b)"

definition writeFile :: "files \<Rightarrow> string \<Rightarrow> buffer \<Rightarrow> files" where
  "writeFile fs path b = fs(path \<mapsto> b)"

definition unlink :: "files \<Rightarrow> string \<Rightarrow> error + files" where
  "unlink fs path = (case fs path of None \<Rightarrow> Inl (JsError ''ENOENT'') | Some b \<Rightarrow> Inr (fs(path := None)))"

text \<open>\<^verbatim>\<open>path.join(this.tempDir, `temp_${timestamp}.ext`)\<close>, without normalisation.\<close>

definition tempPath :: "string \<Rightarrow> nat \<Rightarrow> string \<Rightarrow> string" where
  "tempPath tempDir timestamp ext = tempDir @ ''/'' @ ''temp_'' @ showNat timestamp @ ext"

text \<open>
  The external transcoding tool: the two ffmpeg profiles, as functions from the input
  file's bytes to the output file's bytes that may fail.
\<close>

record ffmpeg =
  movToMp4 :: "buffer \<Rightarrow> error + buffer"
  mp4ToMov :: "buffer \<Rightarrow> error + buffer"

definition runFfmpeg :: "(buffer \<Rightarrow> error + buffer) \<Rightarrow> files \<Rightarrow> string \<Rightarrow> string \<Rightarrow> error + files" where
  "runFfmpeg profile fs input output =
     (case fs input of
        None \<Rightarrow> Inl (JsError ''ffmpeg: no such file'')
      | Some b \<Rightarrow> (case profile b of Inl e \<Rightarrow> Inl e | Inr out \<Rightarrow> Inr (fs(output \<mapsto> out))))"

definition convertMovToMp4 :: "ffmpeg \<Rightarrow> files \<Rightarrow> string \<Rightarrow> string \<Rightarrow> error + files" where
  "convertMovToMp4 tool fs input output = runFfmpeg (movToMp4 tool) fs input output"

definition convertMp4ToMov :: "ffmpeg \<Rightarrow> files \<Rightarrow> string \<Rightarrow> string \<Rightarrow> error + files" where
  "convertMp4ToMov tool fs input output = runFfmpeg (mp4ToMov tool) fs input output"

subsection \<open>Splicing\<close>

text \<open>The XMP packet of \<^verbatim>\<open>embedMp4IntoJpeg\<close>, as UTF-8 bytes.\<close>

definition xmpMetadata :: buffer where
  \<open>xmpMetadata =
     ''<?xpacket begin="'' @ [CHR 0xEF, CHR 0xBB, CHR 0xBF] @ ''" id="W5M0MpCehiHzreSzNTczkc9d"?>'' @ [CHR 0x0A] @
     ''            <x:xmpmeta xmlns:x="adobe:ns:meta/">'' @ [CHR 0x0A] @
     ''              <rdf:RDF xmlns:rdf="http://www.w3.org/1999/02/22-rdf-syntax-ns#">'' @ [CHR 0x0A] @
     ''                <rdf:Description rdf:about=""'' @ [CHR 0x0A] @
     ''                    xmlns:GCamera="http://ns.google.com/photos/1.0/camera/">'' @ [CHR 0x0A] @
     ''                  <GCamera:MotionPhoto>1</GCamera:MotionPhoto>'' @ [CHR 0x0A] @
     ''                  <GCamera:MotionPhotoVersion>1</GCamera:MotionPhotoVersion>'' @ [CHR 0x0A] @
     ''                  <GCamera:MotionPhotoPresentationTimestampUs>0</GCamera:MotionPhotoPresentationTimestampUs>'' @ [CHR 0x0A] @
     ''                </rdf:Description>'' @ [CHR 0x0A] @
     ''              </rdf:RDF>'' @ [CHR 0x0A] @
     ''            </x:xmpmeta>'' @ [CHR 0x0A] @
     ''            <?xpacket end="w"?>''\<close>

definition embedMp4IntoJpeg :: "buffer \<Rightarrow> buffer \<Rightarrow> buffer" where
  "embedMp4IntoJpeg jpegBuffer mp4Buffer =
     (let exifEnd = indexOf jpegBuffer [CHR 0xFF, CHR 0xE1] + 2
      in bufSlice jpegBuffer 0 exifEnd @ xmpMetadata @ bufSliceFrom jpegBuffer exifEnd @ mp4Buffer)"

definition extractJpegAndMp4 :: "files \<Rightarrow> string \<Rightarrow> string \<Rightarrow> string \<Rightarrow> error + files" where
  "extractJpegAndMp4 fs input jpegOutput mp4Output =
     (case readFile fs input of
        Inl e \<Rightarrow> Inl e
      | Inr buffer \<Rightarrow>
          (let jpegEnd = indexOf buffer [CHR 0xFF, CHR 0xD9] + 2
           in Inr (writeFile (writeFile fs jpegOutput (bufSlice buffer 0 jpegEnd))
                     mp4Output (bufSliceFrom buffer jpegEnd))))"

subsection \<open>The two conversions\<close>

text \<open>
  The \<^verbatim>\<open>try\<close> block of \<^verbatim>\<open>convertToAndroidMotionPhoto\<close>; \<open>now\<close> is \<^verbatim>\<open>Date.now()\<close>.
\<close>

definition convertToAndroidMotionPhotoTry ::
  "ffmpeg \<Rightarrow> string \<Rightarrow> nat \<Rightarrow> files \<Rightarrow> string \<Rightarrow> string \<Rightarrow> (error + buffer) \<times> files"
where
  "convertToAndroidMotionPhotoTry tool tempDir now fs jpegPath movPath =
     (let mp4Path = tempPath tempDir now ''.mp4'' in
      case convertMovToMp4 tool fs movPath mp4Path of
        Inl e \<Rightarrow> (Inl e, fs)
      | Inr fs1 \<Rightarrow>
          (case readFile fs1 jpegPath of
             Inl e \<Rightarrow> (Inl e, fs1)
           | Inr jpegBuffer \<Rightarrow>
               (case readFile fs1 mp4Path of
                  Inl e \<Rightarrow> (Inl e, fs1)
                | Inr mp4Buffer \<Rightarrow>
                    (let motionPhoto = embedMp4IntoJpeg jpegBuffer mp4Buffer in
                     case unlink fs1 mp4Path of
                       Inl e \<Rightarrow> (Inl e, fs1)
                     | Inr fs2 \<Rightarrow> (Inr motionPhoto, fs2)))))"

definition convertToAndroidMotionPhoto ::
  "ffmpeg \<Rightarrow> string \<Rightarrow> nat \<Rightarrow> files \<Rightarrow> string \<Rightarrow> string \<Rightarrow> (error + buffer) \<times> files"
where
  "convertToAndroidMotionPhoto tool tempDir now fs jpegPath movPath =
     (case convertToAndroidMotionPhotoTry tool tempDir now fs jpegPath movPath of
        (Inl e, fs') \<Rightarrow> (Inl (AppError ''Failed to convert Live Photo'' 500), fs')
      | (Inr motionPhoto, fs') \<Rightarrow> (Inr motionPhoto, fs'))"

text \<open>
  \<^verbatim>\<open>Promise.all([fs.unlink(jpegPath), fs.unlink(mp4Path), fs.unlink(movPath)])\<close>: all
  three removals are started; the first failure is thrown.
\<close>

definition unlinkAll :: "files \<Rightarrow> string list \<Rightarrow> (error + unit) \<times> files" where
  "unlinkAll fs paths =
     (case filter (\<lambda>p. fs p = None) paths of
        [] \<Rightarrow> Inr ()
      | p # ps \<Rightarrow> Inl (JsError ''ENOENT''),
      (\<lambda>p. if p \<in> set paths then None else fs p))"

definition convertToAppleLivePhotoTry ::
  "ffmpeg \<Rightarrow> string \<Rightarrow> nat \<Rightarrow> files \<Rightarrow> string \<Rightarrow> (error + buffer \<times> buffer) \<times> files"
where
  "convertToAppleLivePhotoTry tool tempDir timestamp fs motionPhotoPath =
     (let jpegPath = tempPath tempDir timestamp ''.jpg'';
          mp4Path = tempPath tempDir timestamp ''.mp4'';
          movPath = tempPath tempDir timestamp ''.mov'' in
      case extractJpegAndMp4 fs motionPhotoPath jpegPath mp4Path of
        Inl e \<Rightarrow> (Inl e, fs)
      | Inr fs1 \<Rightarrow>
          (case convertMp4ToMov tool fs1 mp4Path movPath of
             Inl e \<Rightarrow> (Inl e, fs1)
           | Inr fs2 \<Rightarrow>
               (case readFile fs2 jpegPath of
                  Inl e \<Rightarrow> (Inl e, fs2)
                | Inr jpeg \<Rightarrow>
                    (case readFile fs2 movPath of
                       Inl e \<Rightarrow> (Inl e, fs2)
                     | Inr mov \<Rightarrow>
                         (case unlinkAll fs2 [jpegPath, mp4Path, movPath] of
                            (Inl e, fs3) \<Rightarrow> (Inl e, fs3)
                          | (Inr u, fs3) \<Rightarrow> (Inr (jpeg, mov), fs3))))))"

definition convertToAppleLivePhoto ::
  "ffmpeg \<Rightarrow> string \<Rightarrow> nat \<Rightarrow> files \<Rightarrow> string \<Rightarrow> (error + buffer \<times> buffer) \<times> files"
where
  "convertToAppleLivePhoto tool tempDir timestamp fs motionPhotoPath =
     (case convertToAppleLivePhotoTry tool tempDir timestamp fs motionPhotoPath of
        (Inl e, fs') \<Rightarrow> (Inl (AppError ''Failed to convert Motion Photo'' 500), fs')
      | (Inr r, fs') \<Rightarrow> (Inr r, fs'))"

text \<open>
  The round trip of the specification: the pair is encoded, the caller stores the
  spliced bytes at \<open>motionPhotoPath\<close>, and that file is decoded.
\<close>

definition roundTrip ::
  "ffmpeg \<Rightarrow> string \<Rightarrow> nat \<Rightarrow> nat \<Rightarrow> files \<Rightarrow> string \<Rightarrow> string \<Rightarrow> string \<Rightarrow> error + buffer \<times> buffer"
where
  "roundTrip tool tempDir now1 now2 fs jpegPath movPath motionPhotoPath =
     (case convertToAndroidMotionPhoto tool tempDir now1 fs jpegPath movPath of
        (Inl e, fs1) \<Rightarrow> Inl e
      | (Inr motionPhoto, fs1) \<Rightarrow>
          fst (convertToAppleLivePhoto tool tempDir now2 (writeFile fs1 motionPhotoPath motionPhoto)
                 motionPhotoPath))"

subsection \<open>Files and tools used as concrete inputs\<close>

text \<open>A transcoding tool that accepts every input and returns it unchanged.\<close>

definition copyTool :: ffmpeg where
  "copyTool = \<lparr>movToMp4 = Inr, mp4ToMov = Inr\<rparr>"

text \<open>
  A minimal still image: start-of-image marker, an empty APP1 segment, end-of-image
  marker.
\<close>

definition tinyJpeg :: buffer where
  "tinyJpeg = [CHR 0xFF, CHR 0xD8, CHR 0xFF, CHR 0xE1, CHR 0x00, CHR 0x02, CHR 0xFF, CHR 0xD9]"

definition livePhotoFiles :: files where
  "livePhotoFiles = [''photo.jpg'' \<mapsto> tinyJpeg, ''clip.mov'' \<mapsto> ''mov-bytes'']"

text \<open>
  The file of the test "should throw AppError if JPEG end marker is not found":
  \<^verbatim>\<open>Buffer.from("invalid-content")\<close>.
\<close>

definition invalidFiles :: files where
  "invalidFiles = [''artifacts/test.jpg'' \<mapsto> ''invalid-content'']"

section \<open>Facts about the retry loop\<close>

lemma retryFrom_success:
  "i < retries \<Longrightarrow> operation w = (Inr v, w') \<Longrightarrow> retryFrom operation retries i w = (Inr v, w')"
  by (simp add: retryFrom.simps)

lemma retryFrom_last:
  "i < retries \<Longrightarrow> operation w = (Inl e, w') \<Longrightarrow> i = retries - 1 \<Longrightarrow>
   retryFrom operation retries i w = (Inl e, w')"
  by (simp add: retryFrom.simps)

lemma retryFrom_again:
  "i < retries \<Longrightarrow> operation w = (Inl e, w') \<Longrightarrow> i \<noteq> retries - 1 \<Longrightarrow>
   retryFrom operation retries i w =
     retryFrom operation retries (i + 1) (w'\<lparr>slept := slept w' @ [INITIAL_BACKOFF * 2 ^ i]\<rparr>)"
  by (simp add: retryFrom.simps)

text \<open>
  An operation that fails in every world, with the same error, and appends the same
  calls each time it runs: the loop runs it \<open>retries - i\<close> times and rethrows.
\<close>

lemma retryFrom_always_failing:
  "i < retries \<Longrightarrow> \<forall>w. fst (operation w) = Inl e \<Longrightarrow>
   \<forall>w. calls (snd (operation w)) = calls w @ cs \<Longrightarrow>
   fst (retryFrom operation retries i w) = Inl e \<and>
   calls (snd (retryFrom operation retries i w)) = calls w @ concat (replicate (retries - i) cs)"
proof (induction operation retries i w rule: retryFrom.induct)
  case (1 operation retries i w)
  have "fst (operation w) = Inl e" using "1.prems"(2) by blast
  then obtain w' where ow: "operation w = (Inl e, w')"
    by (metis prod.collapse)
  have "calls (snd (operation w)) = calls w @ cs" using "1.prems"(3) by blast
  then have cw: "calls w' = calls w @ cs"
    using ow by simp
  show ?case
  proof (cases "i = retries - 1")
    case True
    then have "retries - i = 1" using "1.prems"(1) by arith
    moreover have "retryFrom operation retries i w = (Inl e, w')"
      using retryFrom_last [of i retries operation w e w'] "1.prems"(1) ow True by simp
    ultimately show ?thesis using cw by simp
  next
    case False
    then have lt': "i + 1 < retries" using "1.prems"(1) by arith
    let ?w = "w'\<lparr>slept := slept w' @ [INITIAL_BACKOFF * 2 ^ i]\<rparr>"
    have step: "retryFrom operation retries i w = retryFrom operation retries (i + 1) ?w"
      using retryFrom_again [of i retries operation w e w'] "1.prems"(1) ow False by simp
    have ih: "fst (retryFrom operation retries (i + 1) ?w) = Inl e \<and>
        calls (snd (retryFrom operation retries (i + 1) ?w)) =
        calls ?w @ concat (replicate (retries - (i + 1)) cs)"
      using "1.IH" [of "Inl e" w' e] "1.prems" ow False lt' by simp
    have "retries - i = Suc (retries - (i + 1))" using lt' by arith
    with step ih cw show ?thesis by simp
  qed
qed

text \<open>Whatever the loop returns was returned by one run of the operation.\<close>

lemma retryFrom_Inr_from_operation:
  "retryFrom operation retries i w = (Inr v, w') \<Longrightarrow> \<exists>w0. operation w0 = (Inr v, w')"
proof (induction operation retries i w rule: retryFrom.induct)
  case (1 operation retries i w)
  show ?case
  proof (cases "i < retries")
    case False
    with "1.prems" show ?thesis by (simp add: retryFrom.simps)
  next
    case lt: True
    obtain r w1 where ow: "operation w = (r, w1)" by (cases "operation w")
    show ?thesis
    proof (cases r)
      case (Inr v1)
      with ow lt "1.prems" have "v1 = v \<and> w1 = w'" by (simp add: retryFrom_success)
      with ow Inr show ?thesis by blast
    next
      case (Inl e)
      show ?thesis
      proof (cases "i = retries - 1")
        case True
        with ow Inl lt "1.prems" show ?thesis by (simp add: retryFrom_last)
      next
        case False
        have "retryFrom operation retries (i + 1) (w1\<lparr>slept := slept w1 @ [INITIAL_BACKOFF * 2 ^ i]\<rparr>) = (Inr v, w')"
          using retryFrom_again [of i retries operation w e w1] lt ow Inl False "1.prems" by simp
        then show ?thesis
          using "1.IH" [of "Inl e" w1 e] lt ow Inl False by simp
      qed
    qed
  qed
qed

lemma retryFrom_Inl_from_operation:
  "0 < retries \<Longrightarrow> retryFrom operation retries i w = (Inl e, w') \<Longrightarrow> i < retries \<Longrightarrow>
   \<exists>w0. operation w0 = (Inl e, w')"
proof (induction operation retries i w rule: retryFrom.induct)
  case (1 operation retries i w)
  obtain r w1 where ow: "operation w = (r, w1)" by (cases "operation w")
  show ?case
  proof (cases r)
    case (Inr v1)
    with ow "1.prems" show ?thesis by (simp add: retryFrom_success)
  next
    case (Inl e1)
    show ?thesis
    proof (cases "i = retries - 1")
      case True
      with ow Inl "1.prems" have "e1 = e \<and> w1 = w'" by (simp add: retryFrom_last)
      with ow Inl show ?thesis by blast
    next
      case False
      then have lt': "i + 1 < retries" using "1.prems" by arith
      have "retryFrom operation retries (i + 1) (w1\<lparr>slept := slept w1 @ [INITIAL_BACKOFF * 2 ^ i]\<rparr>) = (Inl e, w')"
        using retryFrom_again [of i retries operation w e1 w1] ow Inl False "1.prems" by simp
      then show ?thesis
        using "1.IH" [of "Inl e1" w1 e1] "1.prems" ow Inl False lt' by simp
    qed
  qed
qed


section \<open>Facts about singleSync\<close>

lemma length_concat_replicate:
  "length (concat (replicate n cs)) = n * length cs"
  by (induction n) auto

text \<open>Whatever goes wrong inside, the caller sees the same AppError.\<close>

lemma singleSync_masks:
  "singleSync ev endpoint dat meth w = (Inl e, w') \<Longrightarrow> e = AppError ''Failed to sync data'' 500"
  by (auto simp: singleSync_def split: prod.splits sum.splits)

lemma fetch_rejected_retry:
  assumes "\<forall>h. nt h req = Inl err"
  shows "fst (retryOperation (fetchWithTimeout nt req) w) = Inl err \<and>
         calls (snd (retryOperation (fetchWithTimeout nt req) w)) =
           calls w @ concat (replicate MAX_RETRIES [req])"
proof -
  have "fst (retryFrom (fetchWithTimeout nt req) MAX_RETRIES 0 w) = Inl err \<and>
        calls (snd (retryFrom (fetchWithTimeout nt req) MAX_RETRIES 0 w)) =
          calls w @ concat (replicate (MAX_RETRIES - 0) [req])"
    by (rule retryFrom_always_failing) (use assms in \<open>simp_all add: MAX_RETRIES_def fetchWithTimeout_def\<close>)
  then show ?thesis by (simp add: retryOperation_def)
qed

lemma singleSync_rejected:
  assumes "\<forall>h. net ev h (mkRequest (accessToken ev) endpoint dat meth) = Inl err"
  shows "fst (singleSync ev endpoint dat meth w) = Inl (AppError ''Failed to sync data'' 500) \<and>
         calls (snd (singleSync ev endpoint dat meth w)) =
           calls w @ concat (replicate MAX_RETRIES [mkRequest (accessToken ev) endpoint dat meth])"
proof -
  let ?req = "mkRequest (accessToken ev) endpoint dat meth"
  obtain r w1 where rw: "retryOperation (fetchWithTimeout (net ev) ?req) w = (r, w1)"
    by (cases "retryOperation (fetchWithTimeout (net ev) ?req) w")
  with fetch_rejected_retry [of "net ev" ?req err w] assms
  have "r = Inl err" and "calls w1 = calls w @ concat (replicate MAX_RETRIES [?req])"
    by simp_all
  with rw show ?thesis
    by (simp add: singleSync_def singleSyncTry_def)
qed

text \<open>
  The batched path wraps \<open>singleSync\<close>, which already retries the fetch, in a second
  retry loop: a batch whose request is always rejected costs
  \<open>MAX_RETRIES * MAX_RETRIES\<close> network calls.
\<close>

lemma batch_rejected_retry:
  assumes "\<forall>h. net ev h (mkRequest (accessToken ev) endpoint dat meth) = Inl err"
  shows "fst (retryOperation (singleSync ev endpoint dat meth) w) = Inl (AppError ''Failed to sync data'' 500) \<and>
         calls (snd (retryOperation (singleSync ev endpoint dat meth) w)) =
           calls w @ concat (replicate MAX_RETRIES
             (concat (replicate MAX_RETRIES [mkRequest (accessToken ev) endpoint dat meth])))"
proof -
  have "fst (retryFrom (singleSync ev endpoint dat meth) MAX_RETRIES 0 w) = Inl (AppError ''Failed to sync data'' 500) \<and>
        calls (snd (retryFrom (singleSync ev endpoint dat meth) MAX_RETRIES 0 w)) =
          calls w @ concat (replicate (MAX_RETRIES - 0)
            (concat (replicate MAX_RETRIES [mkRequest (accessToken ev) endpoint dat meth])))"
    by (rule retryFrom_always_failing) (use singleSync_rejected [OF assms] in \<open>simp_all add: MAX_RETRIES_def\<close>)
  then show ?thesis by (simp add: retryOperation_def)
qed

lemma singleSync_accepted:
  assumes "net ev (calls w) (mkRequest (accessToken ev) endpoint dat meth) = Inr resp"
    and "ok resp" and "json resp = Inr p" and "persistMetadata ev dat = Inr ()"
  shows "singleSync ev endpoint dat meth w =
           (Inr p, w\<lparr>calls := calls w @ [mkRequest (accessToken ev) endpoint dat meth]\<rparr>)"
  using assms
  by (simp add: singleSync_def singleSyncTry_def retryOperation_def fetchWithTimeout_def
        retryFrom_success MAX_RETRIES_def)

lemma batch_accepted:
  assumes "net ev (calls w) (mkRequest (accessToken ev) endpoint dat meth) = Inr resp"
    and "ok resp" and "json resp = Inr p" and "persistMetadata ev dat = Inr ()"
  shows "retryOperation (singleSync ev endpoint dat meth) w =
           (Inr p, w\<lparr>calls := calls w @ [mkRequest (accessToken ev) endpoint dat meth]\<rparr>)"
  using singleSync_accepted [OF assms]
  by (simp add: retryOperation_def retryFrom_success MAX_RETRIES_def)

section \<open>Facts about the batch loop\<close>

lemma batchLoop_done:
  "\<not> i < length dat \<Longrightarrow> batchLoop ev endpoint dat meth i acc w = (Inr acc, w)"
  by (simp add: batchLoop.simps)

lemma batchLoop_ok:
  "i < length dat \<Longrightarrow>
   retryOperation (singleSync ev endpoint (Many (slice dat i (i + BATCH_SIZE))) meth) w = (Inr r, w') \<Longrightarrow>
   batchLoop ev endpoint dat meth i acc w =
     batchLoop ev endpoint dat meth (i + BATCH_SIZE) (acc\<lparr>results := results acc @ toArray r\<rparr>) w'"
  by (subst batchLoop.simps) simp

lemma batchLoop_failed:
  "i < length dat \<Longrightarrow>
   retryOperation (singleSync ev endpoint (Many (slice dat i (i + BATCH_SIZE))) meth) w = (Inl err, w') \<Longrightarrow>
   failedEntries err (slice dat i (i + BATCH_SIZE)) = Inr es \<Longrightarrow>
   batchLoop ev endpoint dat meth i acc w =
     batchLoop ev endpoint dat meth (i + BATCH_SIZE) (acc\<lparr>errors := errors acc @ es\<rparr>) w'"
  by (subst batchLoop.simps) simp

lemma batchLoop_handler_throws:
  "i < length dat \<Longrightarrow>
   retryOperation (singleSync ev endpoint (Many (slice dat i (i + BATCH_SIZE))) meth) w = (Inl err, w') \<Longrightarrow>
   failedEntries err (slice dat i (i + BATCH_SIZE)) = Inl e \<Longrightarrow>
   batchLoop ev endpoint dat meth i acc w = (Inl e, w')"
  by (subst batchLoop.simps) simp

lemma failedEntries_records:
  "failedEntries err (map Some rs) =
     Inr (map (\<lambda>r. (sid r, if instanceofError err then message err
                           else ''Unknown error while syncing batch'')) rs)"
  by (induction rs) auto

lemma failedEntries_length:
  "failedEntries err xs = Inr es \<Longrightarrow> length es = length xs"
proof (induction xs arbitrary: es)
  case Nil
  then show ?case by simp
next
  case (Cons x xs)
  then show ?case
    by (cases x) (auto split: sum.splits)
qed

lemma failedEntries_null:
  "None \<in> set xs \<Longrightarrow> \<exists>e. failedEntries err xs = Inl e"
proof (induction xs)
  case Nil
  then show ?case by simp
next
  case (Cons x xs)
  then show ?case by (cases x) (auto split: sum.splits)
qed


section \<open>Claims\<close>

lemma singleSync_Inr_shape:
  assumes "singleSync ev endpoint dat meth w = (Inr p, w')"
  shows "\<exists>h resp. net ev h (mkRequest (accessToken ev) endpoint dat meth) = Inr resp \<and>
           ok resp \<and> json resp = Inr p \<and> persistMetadata ev dat = Inr ()"
proof -
  let ?req = "mkRequest (accessToken ev) endpoint dat meth"
  obtain r w1 where rw: "retryOperation (fetchWithTimeout (net ev) ?req) w = (r, w1)"
    by (cases "retryOperation (fetchWithTimeout (net ev) ?req) w")
  from assms rw obtain resp where r: "r = Inr resp" and okr: "ok resp" and js: "json resp = Inr p"
    and pm: "persistMetadata ev dat = Inr ()"
    by (auto simp: singleSync_def singleSyncTry_def split: sum.splits if_splits)
  from rw r obtain w0 where "fetchWithTimeout (net ev) ?req w0 = (Inr resp, w1)"
    using retryFrom_Inr_from_operation [of "fetchWithTimeout (net ev) ?req" MAX_RETRIES 0 w resp w1]
    by (auto simp: retryOperation_def)
  then have "net ev (calls w0) ?req = Inr resp"
    by (simp add: fetchWithTimeout_def)
  with okr js pm show ?thesis by blast
qed

text \<open>
  Claim C10. A submission that is a single record, or an array of at most 100 records,
  takes the non-batched path: \<open>syncData\<close> either throws or returns an outcome whose
  \<open>errors\<close> list is empty. Error entries can therefore only come from the batched path.
\<close>

theorem syncData_unbatched_errors_empty:
  "dat = Single x \<or> (dat = Many xs \<and> length xs \<le> 100) \<Longrightarrow>
   (case fst (syncData ev endpoint dat meth w) of
      Inl e \<Rightarrow> True
    | Inr out \<Rightarrow> errors out = [])"
  by (auto simp: syncData_def BATCH_SIZE_def split: prod.splits sum.splits)

theorem syncData_unbatched_errors_empty_witness:
  "length [Some contactJohn] \<le> 100
   \<and> syncData healthyEnv ''contacts'' (Many [Some contactJohn]) ''PUT'' emptyWorld =
       (Inr \<lparr>results = [''success''], errors = []\<rparr>,
        \<lparr>calls = [mkRequest ''test-token'' ''contacts'' (Many [Some contactJohn]) ''PUT''], slept = []\<rparr>)
   \<and> errors (projr (fst (syncData healthyEnv ''contacts'' (Many [Some contactJohn]) ''PUT'' emptyWorld))) = []"
  using syncData_unbatched_errors_empty
    [of "Many [Some contactJohn]" None "[Some contactJohn]" healthyEnv "''contacts''" "''PUT''" emptyWorld]
  by (simp add: syncData_def BATCH_SIZE_def singleSync_def singleSyncTry_def retryOperation_def
        retryFrom_success MAX_RETRIES_def fetchWithTimeout_def healthyEnv_def successResponse_def
        emptyWorld_def persistItem_def contactJohn_def)

lemma retryFrom_calls_shape:
  "i < retries \<Longrightarrow> \<forall>w. calls (snd (operation w)) = calls w @ cs \<Longrightarrow>
   \<exists>k. 1 \<le> k \<and> k \<le> retries - i \<and>
       calls (snd (retryFrom operation retries i w)) = calls w @ concat (replicate k cs)"
proof (induction operation retries i w rule: retryFrom.induct)
  case (1 operation retries i w)
  obtain r w1 where ow: "operation w = (r, w1)" by (cases "operation w")
  have "calls (snd (operation w)) = calls w @ cs" using "1.prems"(2) by blast
  then have cw: "calls w1 = calls w @ cs" using ow by simp
  have one: "1 \<le> retries - i" using "1.prems"(1) by arith
  show ?case
  proof (cases r)
    case (Inr v)
    then have "retryFrom operation retries i w = (Inr v, w1)"
      using retryFrom_success [of i retries operation w v w1] "1.prems"(1) ow by simp
    with cw one show ?thesis
      by (intro exI [of _ 1]) simp
  next
    case (Inl e)
    show ?thesis
    proof (cases "i = retries - 1")
      case True
      then have "retryFrom operation retries i w = (Inl e, w1)"
        using retryFrom_last [of i retries operation w e w1] "1.prems"(1) ow Inl by simp
      with cw one show ?thesis
        by (intro exI [of _ 1]) simp
    next
      case False
      then have lt': "i + 1 < retries" using "1.prems"(1) by arith
      let ?w = "w1\<lparr>slept := slept w1 @ [INITIAL_BACKOFF * 2 ^ i]\<rparr>"
      have step: "retryFrom operation retries i w = retryFrom operation retries (i + 1) ?w"
        using retryFrom_again [of i retries operation w e w1] "1.prems"(1) ow Inl False by simp
      obtain k where k: "1 \<le> k" "k \<le> retries - (i + 1)"
          "calls (snd (retryFrom operation retries (i + 1) ?w)) = calls ?w @ concat (replicate k cs)"
        using "1.IH" [of "Inl e" w1 e] "1.prems" ow Inl False lt' by auto
      have "Suc k \<le> retries - i" using k(2) lt' by arith
      moreover have "calls (snd (retryFrom operation retries i w)) = calls w @ concat (replicate (Suc k) cs)"
        using step k(3) cw by simp
      ultimately show ?thesis
        by (intro exI [of _ "Suc k"]) simp
    qed
  qed
qed

lemma singleSyncTry_calls:
  "calls (snd (singleSyncTry ev endpoint dat meth w)) =
     calls (snd (retryOperation (fetchWithTimeout (net ev) (mkRequest (accessToken ev) endpoint dat meth)) w))"
  by (simp add: singleSyncTry_def split: prod.splits sum.splits)

lemma singleSync_calls:
  "calls (snd (singleSync ev endpoint dat meth w)) =
     calls (snd (singleSyncTry ev endpoint dat meth w))"
  by (simp add: singleSync_def split: prod.splits sum.splits)

text \<open>
  Claim C9, as amended. Every network call \<open>singleSync\<close> makes for a batch (between one and
  \<open>MAX_RETRIES\<close> of them) is the same request, whose body is absent exactly when the
  method is \<open>GET\<close>; with any other method, \<open>DELETE\<close> included, the body is the
  serialised batch.
\<close>

theorem singleSync_body_absent_only_for_GET:
  "(\<exists>k. 1 \<le> k \<and> k \<le> MAX_RETRIES \<and>
        calls (snd (singleSync ev endpoint dat meth w)) =
          calls w @ replicate k (mkRequest (accessToken ev) endpoint dat meth))
   \<and> body (mkRequest (accessToken ev) endpoint dat meth) =
         (if meth = ''GET'' then None else Some (JSON_stringify dat))"
proof -
  let ?req = "mkRequest (accessToken ev) endpoint dat meth"
  have "\<exists>k. 1 \<le> k \<and> k \<le> MAX_RETRIES - 0 \<and>
      calls (snd (retryFrom (fetchWithTimeout (net ev) ?req) MAX_RETRIES 0 w)) =
        calls w @ concat (replicate k [?req])"
    by (rule retryFrom_calls_shape) (simp_all add: MAX_RETRIES_def fetchWithTimeout_def)
  then obtain k where "1 \<le> k" "k \<le> MAX_RETRIES"
      "calls (snd (retryOperation (fetchWithTimeout (net ev) ?req) w)) = calls w @ concat (replicate k [?req])"
    by (auto simp: retryOperation_def)
  moreover have "concat (replicate k [?req]) = replicate k ?req"
    by (induction k) simp_all
  ultimately have "\<exists>k. 1 \<le> k \<and> k \<le> MAX_RETRIES \<and>
        calls (snd (singleSync ev endpoint dat meth w)) = calls w @ replicate k ?req"
    by (auto simp: singleSync_calls singleSyncTry_calls)
  moreover have "body ?req = (if meth = ''GET'' then None else Some (JSON_stringify dat))"
    by (simp add: mkRequest_def)
  ultimately show ?thesis by blast
qed

text \<open>
  Claim C9 as stated fails for \<open>DELETE\<close>: the one call made for the contact of the
  specification's scenario carries the serialised record as its body.
\<close>

theorem singleSync_DELETE_carries_body:
  "map body (calls (snd (singleSync healthyEnv ''contacts'' (Single (Some contactJohn)) ''DELETE'' emptyWorld)))
     = [Some (JSON_stringify (Single (Some contactJohn)))]"
  by (simp add: singleSync_def singleSyncTry_def retryOperation_def
        retryFrom_success MAX_RETRIES_def fetchWithTimeout_def healthyEnv_def successResponse_def
        emptyWorld_def persistItem_def contactJohn_def mkRequest_def)

section \<open>The count of results and errors\<close>

lemma batch_Inr_shape:
  assumes "retryOperation (singleSync ev endpoint dat meth) w = (Inr p, w')"
  shows "\<exists>h resp. net ev h (mkRequest (accessToken ev) endpoint dat meth) = Inr resp \<and>
           ok resp \<and> json resp = Inr p \<and> persistMetadata ev dat = Inr ()"
proof -
  obtain w0 where "singleSync ev endpoint dat meth w0 = (Inr p, w')"
    using retryFrom_Inr_from_operation [of "singleSync ev endpoint dat meth" MAX_RETRIES 0 w p w'] assms
    by (auto simp: retryOperation_def)
  then show ?thesis by (rule singleSync_Inr_shape)
qed

lemma length_slice:
  "i < length xs \<Longrightarrow> length (slice xs i (i + BATCH_SIZE)) = min BATCH_SIZE (length xs - i)"
  by (simp add: slice_def)

lemma batchLoop_count:
  "onePerRecord ev \<Longrightarrow> meth \<noteq> ''GET'' \<Longrightarrow>
   batchLoop ev endpoint dat meth i acc w = (Inr out, w') \<Longrightarrow>
   length (results acc) + length (errors acc) = min i (length dat) \<Longrightarrow>
   length (results out) + length (errors out) = length dat"
proof (induction ev endpoint dat meth i acc w rule: batchLoop.induct)
  case (1 ev endpoint dat meth i acc w)
  show ?case
  proof (cases "i < length dat")
    case False
    with "1.prems" show ?thesis by (simp add: batchLoop_done)
  next
    case lt: True
    let ?batch = "slice dat i (i + BATCH_SIZE)"
    have len: "length ?batch = min BATCH_SIZE (length dat - i)"
      using lt by (rule length_slice)
    obtain r w1 where rw: "retryOperation (singleSync ev endpoint (Many ?batch) meth) w = (r, w1)"
      by (cases "retryOperation (singleSync ev endpoint (Many ?batch) meth) w")
    show ?thesis
    proof (cases r)
      case (Inr p)
      obtain h resp where "net ev h (mkRequest (accessToken ev) endpoint (Many ?batch) meth) = Inr resp"
          and "json resp = Inr p"
        using batch_Inr_shape [of ev endpoint "Many ?batch" meth w p w1] rw Inr by blast
      moreover have "body (mkRequest (accessToken ev) endpoint (Many ?batch) meth) =
          Some (JSON_stringify (Many ?batch))"
        using "1.prems"(2) by (simp add: mkRequest_def)
      ultimately have lp: "length (toArray p) = length ?batch"
        using "1.prems"(1) unfolding onePerRecord_def by fastforce
      let ?acc = "acc\<lparr>results := results acc @ toArray p\<rparr>"
      have next_step: "batchLoop ev endpoint dat meth (i + BATCH_SIZE) ?acc w1 = (Inr out, w')"
        using batchLoop_ok [of i dat ev endpoint meth w p w1 acc] lt rw Inr "1.prems"(3) by simp
      have inv: "length (results ?acc) + length (errors ?acc) = min (i + BATCH_SIZE) (length dat)"
        using "1.prems"(4) lp len lt by simp
      show ?thesis
        using "1.IH"(2) [of ?batch "Inr p" w1 p] lt rw Inr "1.prems"(1,2) next_step inv
        by simp
    next
      case (Inl err)
      show ?thesis
      proof (cases "failedEntries err ?batch")
        case (Inl e)
        then have "batchLoop ev endpoint dat meth i acc w = (Inl e, w1)"
          using batchLoop_handler_throws [of i dat ev endpoint meth w err w1 e acc] lt rw \<open>r = Inl err\<close>
          by simp
        with "1.prems"(3) show ?thesis by simp
      next
        case (Inr es)
        have le: "length es = length ?batch"
          using Inr by (rule failedEntries_length)
        let ?acc = "acc\<lparr>errors := errors acc @ es\<rparr>"
        have next_step: "batchLoop ev endpoint dat meth (i + BATCH_SIZE) ?acc w1 = (Inr out, w')"
          using batchLoop_failed [of i dat ev endpoint meth w err w1 es acc] lt rw \<open>r = Inl err\<close> Inr
            "1.prems"(3) by simp
        have inv: "length (results ?acc) + length (errors ?acc) = min (i + BATCH_SIZE) (length dat)"
          using "1.prems"(4) le len lt by simp
        show ?thesis
          using "1.IH"(1) [of ?batch "Inl err" w1 err es] lt rw \<open>r = Inl err\<close> Inr
            "1.prems"(1,2) next_step inv
          by simp
      qed
    qed
  qed
qed

section \<open>The 250-record submissions\<close>

lemma slice_records:
  "i \<le> n \<Longrightarrow> slice (records 0 n) i j = records i (min j n)"
proof -
  assume "i \<le> n"
  show ?thesis
  proof (cases "j \<le> n")
    case True
    show ?thesis
    proof (cases "i \<le> j")
      case True
      with \<open>j \<le> n\<close> show ?thesis
        by (simp add: records_def slice_def take_map drop_map take_upt min_def)
    next
      case False
      with \<open>j \<le> n\<close> show ?thesis
        by (simp add: records_def slice_def min_def)
    qed
  next
    case False
    with \<open>i \<le> n\<close> show ?thesis
      by (simp add: records_def slice_def take_map drop_map min_def)
  qed
qed

lemma length_records: "length (records i j) = j - i"
  by (simp add: records_def)

lemma persistAll_testRecords:
  "persistAll ev (map (\<lambda>i. Some (testRecord i)) ns) = Inr ()"
  by (induction ns) (simp_all add: persistItem_def testRecord_def)

lemma persistAll_records: "persistAll ev (records i j) = Inr ()"
  unfolding records_def by (rule persistAll_testRecords)

lemma failedEntries_testRecords:
  "failedEntries (AppError m s) (records i j) = Inr (map (\<lambda>k. (sid (testRecord k), m)) [i..<j])"
  using failedEntries_records [of "AppError m s" "map testRecord [i..<j]"]
  by (simp add: records_def comp_def)

lemma batch1: "slice largeDataset 0 100 = records 0 100"
  by (simp add: largeDataset_def slice_records)

lemma batch2: "slice largeDataset 100 200 = records 100 200"
  by (simp add: largeDataset_def slice_records)

lemma batch3: "slice largeDataset 200 300 = records 200 250"
  by (simp add: largeDataset_def slice_records)

lemma showNat_0: "showNat 0 = ''0''"
  by (simp add: showNat.simps)

lemma showNat_100: "showNat 100 = ''100''"
  by (simp add: showNat.simps)

lemma batch1_not_batch2: "records 0 100 \<noteq> records 100 200"
proof
  assume eq: "records 0 100 = records 100 200"
  have "records 0 100 ! 0 = Some (testRecord 0)"
    by (simp add: records_def del: upt_Suc)
  moreover have "records 100 200 ! 0 = Some (testRecord 100)"
    by (simp add: records_def del: upt_Suc)
  ultimately have "testRecord 0 = testRecord 100" using eq by simp
  then show False
    by (simp add: testRecord_def showNat_0 showNat_100)
qed

lemma batch3_not_batch2: "records 200 250 \<noteq> records 100 200"
proof
  assume "records 200 250 = records 100 200"
  then have "length (records 200 250) = length (records 100 200)"
    by (rule arg_cong)
  then show False by (simp add: length_records)
qed

lemma isLargeArray_largeDataset: "isLargeArray (Many largeDataset)"
  by (simp add: largeDataset_def length_records BATCH_SIZE_def)

lemma length_largeDataset: "length largeDataset = 250"
  by (simp add: largeDataset_def length_records)

lemma batch_rejected_call_count:
  assumes "\<forall>h. net ev h (mkRequest (accessToken ev) endpoint dat meth) = Inl err"
  shows "length (calls (snd (retryOperation (singleSync ev endpoint dat meth) w))) =
           length (calls w) + MAX_RETRIES * MAX_RETRIES"
  using batch_rejected_retry [OF assms, of w]
  by (simp add: length_concat_replicate)

lemma upt_append_upt:
  "i \<le> j \<Longrightarrow> j \<le> k \<Longrightarrow> [i..<j] @ [j..<k] = [i..<k]"
  by (metis le_Suc_ex upt_add_eq_append)

text \<open>
  Claim C2, on 250 records submitted to an endpoint that rejects every fetch. The batched
  path runs \<open>singleSync\<close>, which already retries the fetch \<open>MAX_RETRIES\<close> times, under a
  second \<open>retryOperation\<close>: one batch costs 25 network calls, not 5, and the three
  batches cost 75. Every batch does end with a reported failure.
\<close>

theorem rejected_batch_costs_25_calls:
  "fst (retryOperation (singleSync rejectingEnv ''test-endpoint'' (Many (records 0 100)) ''POST'') emptyWorld)
     = Inl (AppError ''Failed to sync data'' 500)
   \<and> length (calls (snd (retryOperation
         (singleSync rejectingEnv ''test-endpoint'' (Many (records 0 100)) ''POST'') emptyWorld))) = 25
   \<and> fst (syncData rejectingEnv ''test-endpoint'' (Many largeDataset) ''POST'' emptyWorld) =
       Inr \<lparr>results = [],
            errors = map (\<lambda>i. (sid (testRecord i), ''Failed to sync data'')) [0..<250]\<rparr>
   \<and> length (calls (snd (syncData rejectingEnv ''test-endpoint'' (Many largeDataset) ''POST'' emptyWorld))) = 75"
proof -
  let ?ev = rejectingEnv
  let ?ep = "''test-endpoint''"
  let ?err = "AppError ''Failed to sync data'' 500"
  let ?acc0 = "\<lparr>results = [], errors = []\<rparr> :: string SyncResult"
  define es1 where "es1 = map (\<lambda>i. (sid (testRecord i), ''Failed to sync data'')) [0..<100]"
  define es2 where "es2 = map (\<lambda>i. (sid (testRecord i), ''Failed to sync data'')) [100..<200]"
  define es3 where "es3 = map (\<lambda>i. (sid (testRecord i), ''Failed to sync data'')) [200..<250]"
  have rej: "\<And>dat. \<forall>h. net ?ev h (mkRequest (accessToken ?ev) ?ep dat ''POST'') = Inl (JsError ''Network error'')"
    by (simp add: rejectingEnv_def)
  have fails: "\<And>dat w. fst (retryOperation (singleSync ?ev ?ep dat ''POST'') w) = Inl ?err"
    using batch_rejected_retry [OF rej] by blast
  have count: "\<And>dat w. length (calls (snd (retryOperation (singleSync ?ev ?ep dat ''POST'') w))) =
      length (calls w) + 25"
    using batch_rejected_call_count [OF rej] by (simp add: MAX_RETRIES_def)
  obtain w1 where s1: "retryOperation (singleSync ?ev ?ep (Many (records 0 100)) ''POST'') emptyWorld = (Inl ?err, w1)"
    using fails [of "Many (records 0 100)" emptyWorld] by (metis prod.collapse)
  obtain w2 where s2: "retryOperation (singleSync ?ev ?ep (Many (records 100 200)) ''POST'') w1 = (Inl ?err, w2)"
    using fails [of "Many (records 100 200)" w1] by (metis prod.collapse)
  obtain w3 where s3: "retryOperation (singleSync ?ev ?ep (Many (records 200 250)) ''POST'') w2 = (Inl ?err, w3)"
    using fails [of "Many (records 200 250)" w2] by (metis prod.collapse)
  have c1: "length (calls w1) = 25"
    using count [of "Many (records 0 100)" emptyWorld] s1 by (simp add: emptyWorld_def)
  have c2: "length (calls w2) = 50"
    using count [of "Many (records 100 200)" w1] s2 c1 by simp
  have c3: "length (calls w3) = 75"
    using count [of "Many (records 200 250)" w2] s3 c2 by simp
  have f1: "failedEntries ?err (records 0 100) = Inr es1"
    unfolding es1_def by (rule failedEntries_testRecords)
  have f2: "failedEntries ?err (records 100 200) = Inr es2"
    unfolding es2_def by (rule failedEntries_testRecords)
  have f3: "failedEntries ?err (records 200 250) = Inr es3"
    unfolding es3_def by (rule failedEntries_testRecords)
  have "batchLoop ?ev ?ep largeDataset ''POST'' 0 ?acc0 emptyWorld =
        batchLoop ?ev ?ep largeDataset ''POST'' 100 \<lparr>results = [], errors = es1\<rparr> w1"
    using batchLoop_failed [of 0 largeDataset ?ev ?ep "''POST''" emptyWorld ?err w1 es1 ?acc0]
      s1 f1 batch1 length_largeDataset by (simp add: BATCH_SIZE_def)
  also have "\<dots> = batchLoop ?ev ?ep largeDataset ''POST'' 200 \<lparr>results = [], errors = es1 @ es2\<rparr> w2"
    using batchLoop_failed [of 100 largeDataset ?ev ?ep "''POST''" w1 ?err w2 es2 "\<lparr>results = [], errors = es1\<rparr>"]
      s2 f2 batch2 length_largeDataset by (simp add: BATCH_SIZE_def)
  also have "\<dots> = batchLoop ?ev ?ep largeDataset ''POST'' 300 \<lparr>results = [], errors = es1 @ es2 @ es3\<rparr> w3"
    using batchLoop_failed [of 200 largeDataset ?ev ?ep "''POST''" w2 ?err w3 es3 "\<lparr>results = [], errors = es1 @ es2\<rparr>"]
      s3 f3 batch3 length_largeDataset by (simp add: BATCH_SIZE_def)
  also have "\<dots> = (Inr \<lparr>results = [], errors = es1 @ es2 @ es3\<rparr>, w3)"
    using batchLoop_done [of 300 largeDataset] length_largeDataset by simp
  finally have loop: "batchLoop ?ev ?ep largeDataset ''POST'' 0 ?acc0 emptyWorld =
      (Inr \<lparr>results = [], errors = es1 @ es2 @ es3\<rparr>, w3)" .
  have "[0..<100] @ [100..<200] @ [200..<250] = [0..<250]"
    by (simp only: upt_append_upt [of 100 200 250] upt_append_upt [of 0 100 250])
  then have es: "es1 @ es2 @ es3 = map (\<lambda>i. (sid (testRecord i), ''Failed to sync data'')) [0..<250]"
    unfolding es1_def es2_def es3_def by (simp only: map_append [symmetric])
  have sd: "syncData ?ev ?ep (Many largeDataset) ''POST'' emptyWorld =
      (Inr \<lparr>results = [], errors = es1 @ es2 @ es3\<rparr>, w3)"
    using loop isLargeArray_largeDataset by (simp add: syncData_def batchSync_def)
  show ?thesis
    using s1 c1 sd es c3 by simp
qed

section \<open>How many results and errors an outcome holds\<close>

text \<open>
  Claim C3, as amended. Towards an endpoint that answers each successful call with one
  result per record sent, and with a method other than \<open>GET\<close> (so that the records are
  sent), every outcome \<open>syncData\<close> returns holds as many results and error entries
  together as records were submitted: a record is answered if its batch succeeded and
  has an error entry if its batch failed.
\<close>

theorem syncData_outcome_counts_records:
  assumes "onePerRecord ev" and "meth \<noteq> ''GET''"
    and "fst (syncData ev endpoint dat meth w) = Inr out"
  shows "length (results out) + length (errors out) = length (toArray dat)"
proof (cases "isLargeArray dat")
  case True
  have "fst (batchLoop ev endpoint (toArray dat) meth 0 \<lparr>results = [], errors = []\<rparr> w) = Inr out"
    using assms(3) True by (simp add: syncData_def batchSync_def)
  then obtain w' where "batchLoop ev endpoint (toArray dat) meth 0 \<lparr>results = [], errors = []\<rparr> w = (Inr out, w')"
    by (metis prod.collapse)
  then show ?thesis
    using batchLoop_count [of ev meth endpoint "toArray dat" 0 "\<lparr>results = [], errors = []\<rparr>" w out w'] assms(1,2)
    by simp
next
  case False
  obtain r w1 where sw: "singleSync ev endpoint dat meth w = (r, w1)"
    by (cases "singleSync ev endpoint dat meth w")
  with assms(3) False obtain p where r: "r = Inr p" and out: "out = \<lparr>results = toArray p, errors = []\<rparr>"
    by (auto simp: syncData_def split: sum.splits)
  obtain h resp where "net ev h (mkRequest (accessToken ev) endpoint dat meth) = Inr resp"
      and "json resp = Inr p"
    using singleSync_Inr_shape [of ev endpoint dat meth w p w1] sw r by blast
  moreover have "body (mkRequest (accessToken ev) endpoint dat meth) = Some (JSON_stringify dat)"
    using assms(2) by (simp add: mkRequest_def)
  ultimately have "length (toArray p) = length (toArray dat)"
    using assms(1) unfolding onePerRecord_def by fastforce
  with out show ?thesis by simp
qed

text \<open>
  The 250 records against an endpoint that accepts the first and third batch and rejects
  every attempt at the second.
\<close>

lemma largeDataset_second_batch_rejected:
  assumes a1: "\<And>h. net ev h (mkRequest (accessToken ev) ep (Many (records 0 100)) meth) = Inr r1"
    and ok1: "ok r1" and p1: "json r1 = Inr p1"
    and a2: "\<forall>h. net ev h (mkRequest (accessToken ev) ep (Many (records 100 200)) meth) = Inl err"
    and a3: "\<And>h. net ev h (mkRequest (accessToken ev) ep (Many (records 200 250)) meth) = Inr r3"
    and ok3: "ok r3" and p3: "json r3 = Inr p3"
  shows "fst (syncData ev ep (Many largeDataset) meth emptyWorld) =
     Inr \<lparr>results = toArray p1 @ toArray p3,
          errors = map (\<lambda>i. (sid (testRecord i), ''Failed to sync data'')) [100..<200]\<rparr>"
proof -
  let ?acc0 = "\<lparr>results = [], errors = []\<rparr> :: 'c SyncResult"
  define es where "es = map (\<lambda>i. (sid (testRecord i), ''Failed to sync data'')) [100..<200]"
  obtain w1 where s1: "retryOperation (singleSync ev ep (Many (records 0 100)) meth) emptyWorld = (Inr p1, w1)"
    using batch_accepted [of ev emptyWorld ep "Many (records 0 100)" meth r1 p1] a1 ok1 p1
    by (simp add: persistAll_records)
  obtain w2 where s2: "retryOperation (singleSync ev ep (Many (records 100 200)) meth) w1 =
      (Inl (AppError ''Failed to sync data'' 500), w2)"
    using batch_rejected_retry [of ev ep "Many (records 100 200)" meth err w1] a2
    by (metis prod.collapse)
  obtain w3 where s3: "retryOperation (singleSync ev ep (Many (records 200 250)) meth) w2 = (Inr p3, w3)"
    using batch_accepted [of ev w2 ep "Many (records 200 250)" meth r3 p3] a3 ok3 p3
    by (simp add: persistAll_records)
  have f2: "failedEntries (AppError ''Failed to sync data'' 500) (records 100 200) = Inr es"
    unfolding es_def by (rule failedEntries_testRecords)
  have "batchLoop ev ep largeDataset meth 0 ?acc0 emptyWorld =
        batchLoop ev ep largeDataset meth 100 \<lparr>results = toArray p1, errors = []\<rparr> w1"
    using batchLoop_ok [of 0 largeDataset ev ep meth emptyWorld p1 w1 ?acc0]
      s1 batch1 length_largeDataset by (simp add: BATCH_SIZE_def)
  also have "\<dots> = batchLoop ev ep largeDataset meth 200 \<lparr>results = toArray p1, errors = es\<rparr> w2"
    using batchLoop_failed [of 100 largeDataset ev ep meth w1 "AppError ''Failed to sync data'' 500" w2
        es "\<lparr>results = toArray p1, errors = []\<rparr>"]
      s2 f2 batch2 length_largeDataset by (simp add: BATCH_SIZE_def)
  also have "\<dots> = batchLoop ev ep largeDataset meth 300 \<lparr>results = toArray p1 @ toArray p3, errors = es\<rparr> w3"
    using batchLoop_ok [of 200 largeDataset ev ep meth w2 p3 w3 "\<lparr>results = toArray p1, errors = es\<rparr>"]
      s3 batch3 length_largeDataset by (simp add: BATCH_SIZE_def)
  also have "\<dots> = (Inr \<lparr>results = toArray p1 @ toArray p3, errors = es\<rparr>, w3)"
    using batchLoop_done [of 300 largeDataset] length_largeDataset by simp
  finally show ?thesis
    using isLargeArray_largeDataset by (simp add: syncData_def batchSync_def es_def)
qed

text \<open>The 250 records against an endpoint that accepts all three batches.\<close>

lemma largeDataset_all_accepted:
  assumes a1: "\<And>h. net ev h (mkRequest (accessToken ev) ep (Many (records 0 100)) meth) = Inr r1"
    and ok1: "ok r1" and p1: "json r1 = Inr p1"
    and a2: "\<And>h. net ev h (mkRequest (accessToken ev) ep (Many (records 100 200)) meth) = Inr r2"
    and ok2: "ok r2" and p2: "json r2 = Inr p2"
    and a3: "\<And>h. net ev h (mkRequest (accessToken ev) ep (Many (records 200 250)) meth) = Inr r3"
    and ok3: "ok r3" and p3: "json r3 = Inr p3"
  shows "fst (syncData ev ep (Many largeDataset) meth emptyWorld) =
     Inr \<lparr>results = toArray p1 @ toArray p2 @ toArray p3, errors = []\<rparr>"
proof -
  let ?acc0 = "\<lparr>results = [], errors = []\<rparr> :: 'c SyncResult"
  obtain w1 where s1: "retryOperation (singleSync ev ep (Many (records 0 100)) meth) emptyWorld = (Inr p1, w1)"
    using batch_accepted [of ev emptyWorld ep "Many (records 0 100)" meth r1 p1] a1 ok1 p1
    by (simp add: persistAll_records)
  obtain w2 where s2: "retryOperation (singleSync ev ep (Many (records 100 200)) meth) w1 = (Inr p2, w2)"
    using batch_accepted [of ev w1 ep "Many (records 100 200)" meth r2 p2] a2 ok2 p2
    by (simp add: persistAll_records)
  obtain w3 where s3: "retryOperation (singleSync ev ep (Many (records 200 250)) meth) w2 = (Inr p3, w3)"
    using batch_accepted [of ev w2 ep "Many (records 200 250)" meth r3 p3] a3 ok3 p3
    by (simp add: persistAll_records)
  have "batchLoop ev ep largeDataset meth 0 ?acc0 emptyWorld =
        batchLoop ev ep largeDataset meth 100 \<lparr>results = toArray p1, errors = []\<rparr> w1"
    using batchLoop_ok [of 0 largeDataset ev ep meth emptyWorld p1 w1 ?acc0]
      s1 batch1 length_largeDataset by (simp add: BATCH_SIZE_def)
  also have "\<dots> = batchLoop ev ep largeDataset meth 200 \<lparr>results = toArray p1 @ toArray p2, errors = []\<rparr> w2"
    using batchLoop_ok [of 100 largeDataset ev ep meth w1 p2 w2 "\<lparr>results = toArray p1, errors = []\<rparr>"]
      s2 batch2 length_largeDataset by (simp add: BATCH_SIZE_def)
  also have "\<dots> = batchLoop ev ep largeDataset meth 300
      \<lparr>results = toArray p1 @ toArray p2 @ toArray p3, errors = []\<rparr> w3"
    using batchLoop_ok [of 200 largeDataset ev ep meth w2 p3 w3 "\<lparr>results = toArray p1 @ toArray p2, errors = []\<rparr>"]
      s3 batch3 length_largeDataset by (simp add: BATCH_SIZE_def)
  also have "\<dots> = (Inr \<lparr>results = toArray p1 @ toArray p2 @ toArray p3, errors = []\<rparr>, w3)"
    using batchLoop_done [of 300 largeDataset] length_largeDataset by simp
  finally show ?thesis
    using isLargeArray_largeDataset by (simp add: syncData_def batchSync_def)
qed

text \<open>
  Claim C1, on the 250 records of the repository's test "should handle partial failures
  in batches", sent to an endpoint that rejects every attempt at the second batch with
  \<^verbatim>\<open>Error('Network error')\<close> and accepts the other two. The outcome holds the two
  payloads answered for the first and third batch and one entry per record of the second
  batch, with that record's id: the failed batch does not stop the others. But the
  message of each entry is the fixed text of the AppError that \<open>singleSync\<close> throws in
  place of whatever went wrong, not the message \<^verbatim>\<open>'Network error'\<close> of the underlying
  error, which is what that test expects.
\<close>

theorem partial_failure_entries_carry_fixed_message:
  "fst (syncData secondBatchFailsEnv ''test-endpoint'' (Many largeDataset) ''POST'' emptyWorld) =
     Inr \<lparr>results = [''success'', ''success''],
          errors = map (\<lambda>i. (sid (testRecord i), ''Failed to sync data'')) [100..<200]\<rparr>"
proof -
  have "fst (syncData secondBatchFailsEnv ''test-endpoint'' (Many largeDataset) ''POST'' emptyWorld) =
     Inr \<lparr>results = toArray (Single ''success'') @ toArray (Single ''success''),
          errors = map (\<lambda>i. (sid (testRecord i), ''Failed to sync data'')) [100..<200]\<rparr>"
  proof (rule largeDataset_second_batch_rejected)
    show "\<And>h. net secondBatchFailsEnv h (mkRequest (accessToken secondBatchFailsEnv) ''test-endpoint''
        (Many (records 0 100)) ''POST'') = Inr successResponse"
      using batch1_not_batch2 by (simp add: secondBatchFailsEnv_def mkRequest_def)
    show "\<forall>h. net secondBatchFailsEnv h (mkRequest (accessToken secondBatchFailsEnv) ''test-endpoint''
        (Many (records 100 200)) ''POST'') = Inl (JsError ''Network error'')"
      by (simp add: secondBatchFailsEnv_def mkRequest_def)
    show "\<And>h. net secondBatchFailsEnv h (mkRequest (accessToken secondBatchFailsEnv) ''test-endpoint''
        (Many (records 200 250)) ''POST'') = Inr successResponse"
      using batch3_not_batch2 by (simp add: secondBatchFailsEnv_def mkRequest_def)
  qed (simp_all add: successResponse_def)
  then show ?thesis by simp
qed

text \<open>
  Claim C3 as stated fails on the input of the repository's test "should successfully
  sync large datasets by batching": 250 well-formed records, each batch answered with one
  object. The outcome holds three results and no error, as that test expects: 3, not 250.
\<close>

theorem outcome_counts_payloads_not_records:
  "fst (syncData healthyEnv ''test-endpoint'' (Many largeDataset) ''POST'' emptyWorld) =
     Inr \<lparr>results = [''success'', ''success'', ''success''], errors = []\<rparr>
   \<and> length [''success'', ''success'', ''success''] + length ([] :: (string \<times> string) list)
       \<noteq> length largeDataset"
proof -
  have "fst (syncData healthyEnv ''test-endpoint'' (Many largeDataset) ''POST'' emptyWorld) =
     Inr \<lparr>results = toArray (Single ''success'') @ toArray (Single ''success'') @ toArray (Single ''success''),
          errors = []\<rparr>"
    by (rule largeDataset_all_accepted [where ?r1.0 = successResponse and ?r2.0 = successResponse
          and ?r3.0 = successResponse])
       (simp_all add: healthyEnv_def successResponse_def)
  then show ?thesis by (simp add: length_largeDataset)
qed

lemma onePerRecord_echoEnv: "onePerRecord echoEnv"
  by (auto simp: onePerRecord_def echoEnv_def split: option.splits body.splits if_splits)

theorem syncData_outcome_counts_records_witness:
  "onePerRecord echoEnv \<and> ''PUT'' \<noteq> ''GET''
   \<and> fst (syncData echoEnv ''test-endpoint'' (Many largeDataset) ''PUT'' emptyWorld) =
       Inr \<lparr>results = records 0 100 @ records 200 250,
            errors = map (\<lambda>i. (sid (testRecord i), ''Failed to sync data'')) [100..<200]\<rparr>
   \<and> length (records 0 100 @ records 200 250)
       + length (map (\<lambda>i. (sid (testRecord i), ''Failed to sync data'')) [100..<200])
       = length (toArray (Many largeDataset))"
proof -
  have out: "fst (syncData echoEnv ''test-endpoint'' (Many largeDataset) ''PUT'' emptyWorld) =
     Inr \<lparr>results = toArray (Many (records 0 100)) @ toArray (Many (records 200 250)),
          errors = map (\<lambda>i. (sid (testRecord i), ''Failed to sync data'')) [100..<200]\<rparr>"
  proof (rule largeDataset_second_batch_rejected)
    show "\<And>h. net echoEnv h (mkRequest (accessToken echoEnv) ''test-endpoint'' (Many (records 0 100)) ''PUT'')
        = Inr \<lparr>ok = True, status = 200, statusText = ''OK'', json = Inr (Many (records 0 100))\<rparr>"
      using batch1_not_batch2 by (simp add: echoEnv_def mkRequest_def)
    show "\<forall>h. net echoEnv h (mkRequest (accessToken echoEnv) ''test-endpoint'' (Many (records 100 200)) ''PUT'')
        = Inl (JsError ''Network error'')"
      by (simp add: echoEnv_def mkRequest_def)
    show "\<And>h. net echoEnv h (mkRequest (accessToken echoEnv) ''test-endpoint'' (Many (records 200 250)) ''PUT'')
        = Inr \<lparr>ok = True, status = 200, statusText = ''OK'', json = Inr (Many (records 200 250))\<rparr>"
      using batch3_not_batch2 by (simp add: echoEnv_def mkRequest_def)
  qed simp_all
  have "''PUT'' \<noteq> ''GET''" by simp
  from syncData_outcome_counts_records [OF onePerRecord_echoEnv this out]
  show ?thesis using out onePerRecord_echoEnv by simp
qed

section \<open>Null entries\<close>

lemma persistAll_null: "None \<in> set xs \<Longrightarrow> \<exists>e. persistAll ev xs = Inl e"
proof (induction xs)
  case Nil
  then show ?case by simp
next
  case (Cons x xs)
  show ?case
  proof (cases "persistItem ev x")
    case (Inl e)
    then show ?thesis by simp
  next
    case (Inr u)
    then have "x \<noteq> None" by (cases x) (simp_all add: persistItem_def)
    with Cons.prems have "None \<in> set xs" by auto
    with Cons.IH Inr show ?thesis by simp
  qed
qed

lemma persistMetadata_null: "None \<in> set (toArray dat) \<Longrightarrow> \<exists>e. persistMetadata ev dat = Inl e"
  by (cases dat) (auto simp: persistItem_def dest: persistAll_null)

lemma batchLoop_null:
  "None \<in> set (drop i dat) \<Longrightarrow> \<exists>e. fst (batchLoop ev endpoint dat meth i acc w) = Inl e"
proof (induction ev endpoint dat meth i acc w rule: batchLoop.induct)
  case (1 ev endpoint dat meth i acc w)
  have lt: "i < length dat" using "1.prems" by (cases "i < length dat") auto
  let ?batch = "slice dat i (i + BATCH_SIZE)"
  have split: "drop i dat = ?batch @ drop (i + BATCH_SIZE) dat"
    by (simp add: slice_def add.commute drop_drop [symmetric] del: drop_drop)
  obtain r w1 where rw: "retryOperation (singleSync ev endpoint (Many ?batch) meth) w = (r, w1)"
    by (cases "retryOperation (singleSync ev endpoint (Many ?batch) meth) w")
  show ?case
  proof (cases "None \<in> set ?batch")
    case True
    show ?thesis
    proof (cases r)
      case (Inr p)
      then have "persistMetadata ev (Many ?batch) = Inr ()"
        using batch_Inr_shape [of ev endpoint "Many ?batch" meth w p w1] rw by blast
      with persistMetadata_null [of "Many ?batch" ev] True show ?thesis by simp
    next
      case (Inl err)
      obtain e where "failedEntries err ?batch = Inl e"
        using failedEntries_null [OF True] by blast
      then show ?thesis
        using batchLoop_handler_throws [of i dat ev endpoint meth w err w1 e acc] lt rw Inl by simp
    qed
  next
    case False
    with "1.prems" split have later: "None \<in> set (drop (i + BATCH_SIZE) dat)"
      by (metis Un_iff set_append)
    show ?thesis
    proof (cases r)
      case (Inr p)
      then show ?thesis
        using batchLoop_ok [of i dat ev endpoint meth w p w1 acc] lt rw
          "1.IH"(2) [of ?batch "Inr p" w1 p] later by simp
    next
      case (Inl err)
      show ?thesis
      proof (cases "failedEntries err ?batch")
        case e: (Inl e)
        then show ?thesis
          using batchLoop_handler_throws [of i dat ev endpoint meth w err w1 e acc] lt rw Inl by simp
      next
        case (Inr es)
        then show ?thesis
          using batchLoop_failed [of i dat ev endpoint meth w err w1 es acc] lt rw Inl
            "1.IH"(1) [of ?batch "Inl err" w1 err es] later by simp
      qed
    qed
  qed
qed

text \<open>
  A submission with a \<^verbatim>\<open>null\<close> entry never yields an outcome: \<open>syncData\<close> throws. On the
  non-batched path the metadata step reads \<^verbatim>\<open>item.metadata\<close> of \<^verbatim>\<open>null\<close>; on the
  batched path the failure handler reads \<^verbatim>\<open>item.id\<close> of \<^verbatim>\<open>null\<close>.
\<close>

lemma syncData_null_entry_throws:
  assumes "None \<in> set (toArray dat)"
  shows "\<exists>e. fst (syncData ev endpoint dat meth w) = Inl e"
proof (cases "isLargeArray dat")
  case True
  then show ?thesis
    using batchLoop_null [of 0 "toArray dat" ev endpoint meth "\<lparr>results = [], errors = []\<rparr>" w] assms
    by (simp add: syncData_def batchSync_def)
next
  case False
  obtain r w1 where sw: "singleSync ev endpoint dat meth w = (r, w1)"
    by (cases "singleSync ev endpoint dat meth w")
  show ?thesis
  proof (cases r)
    case (Inl e)
    with sw False show ?thesis by (simp add: syncData_def)
  next
    case (Inr p)
    then have "persistMetadata ev dat = Inr ()"
      using singleSync_Inr_shape [of ev endpoint dat meth w p w1] sw by blast
    with persistMetadata_null [OF assms, of ev] show ?thesis by simp
  qed
qed

section \<open>A bound on the calls of one batch\<close>

lemma retryFrom_call_bound:
  "\<forall>w. length (calls (snd (operation w))) \<le> length (calls w) + c \<Longrightarrow>
   length (calls (snd (retryFrom operation retries i w))) \<le> length (calls w) + (retries - i) * c"
proof (induction operation retries i w rule: retryFrom.induct)
  case (1 operation retries i w)
  show ?case
  proof (cases "i < retries")
    case False
    then show ?thesis by (simp add: retryFrom.simps)
  next
    case lt: True
    obtain r w1 where ow: "operation w = (r, w1)" by (cases "operation w")
    have "length (calls (snd (operation w))) \<le> length (calls w) + c" using "1.prems" by blast
    then have cw: "length (calls w1) \<le> length (calls w) + c" using ow by simp
    have one: "c \<le> (retries - i) * c" using lt by (cases "retries - i") auto
    show ?thesis
    proof (cases r)
      case (Inr v)
      then have "retryFrom operation retries i w = (Inr v, w1)"
        using retryFrom_success [of i retries operation w v w1] lt ow by simp
      then have "length (calls (snd (retryFrom operation retries i w))) = length (calls w1)" by simp
      then show ?thesis using cw one by linarith
    next
      case (Inl e)
      show ?thesis
      proof (cases "i = retries - 1")
        case True
        then have "retryFrom operation retries i w = (Inl e, w1)"
          using retryFrom_last [of i retries operation w e w1] lt ow Inl by simp
        then have "length (calls (snd (retryFrom operation retries i w))) = length (calls w1)" by simp
        then show ?thesis using cw one by linarith
      next
        case False
        let ?w = "w1\<lparr>slept := slept w1 @ [INITIAL_BACKOFF * 2 ^ i]\<rparr>"
        have step: "retryFrom operation retries i w = retryFrom operation retries (i + 1) ?w"
          using retryFrom_again [of i retries operation w e w1] lt ow Inl False by simp
        have "length (calls (snd (retryFrom operation retries (i + 1) ?w))) \<le>
            length (calls ?w) + (retries - (i + 1)) * c"
          using "1.IH" [of "Inl e" w1 e] "1.prems" lt ow Inl False by simp
        moreover have "(retries - i) * c = c + (retries - (i + 1)) * c"
          using lt by (cases "retries - i") (auto simp: Suc_diff_Suc)
        ultimately show ?thesis using step cw by simp
      qed
    qed
  qed
qed

text \<open>
  Whatever the endpoint does, \<open>singleSync\<close> makes at most \<open>MAX_RETRIES\<close> calls and a batch
  of the batched path at most \<open>MAX_RETRIES * MAX_RETRIES\<close>.
\<close>

lemma singleSync_call_bound:
  "length (calls (snd (singleSync ev endpoint dat meth w))) \<le> length (calls w) + MAX_RETRIES"
proof -
  have "length (calls (snd (retryFrom (fetchWithTimeout (net ev) (mkRequest (accessToken ev) endpoint dat meth))
          MAX_RETRIES 0 w))) \<le> length (calls w) + (MAX_RETRIES - 0) * 1"
    by (rule retryFrom_call_bound) (simp add: fetchWithTimeout_def)
  then show ?thesis
    by (simp add: singleSync_calls singleSyncTry_calls retryOperation_def)
qed

lemma batch_call_bound:
  "length (calls (snd (retryOperation (singleSync ev endpoint dat meth) w))) \<le>
     length (calls w) + MAX_RETRIES * MAX_RETRIES"
proof -
  have "length (calls (snd (retryFrom (singleSync ev endpoint dat meth) MAX_RETRIES 0 w))) \<le>
      length (calls w) + (MAX_RETRIES - 0) * MAX_RETRIES"
    by (rule retryFrom_call_bound) (simp add: singleSync_call_bound)
  then show ?thesis by (simp add: retryOperation_def)
qed

text \<open>
  An endpoint that answers every call with an HTTP error status, on the non-batched
  path: the fetch resolves, so \<open>retryOperation\<close> does not repeat it, and the AppError of
  line 104 is thrown after a single call.
\<close>

lemma http_error_single_call:
  assumes "net ev (calls w) (mkRequest (accessToken ev) endpoint dat meth) = Inr resp" and "\<not> ok resp"
  shows "singleSync ev endpoint dat meth w =
           (Inl (AppError ''Failed to sync data'' 500),
            w\<lparr>calls := calls w @ [mkRequest (accessToken ev) endpoint dat meth]\<rparr>)"
  using assms
  by (simp add: singleSync_def singleSyncTry_def retryOperation_def fetchWithTimeout_def
        retryFrom_success MAX_RETRIES_def)

section \<open>Conflict resolution\<close>

subsection \<open>Arrays are merged cloud elements first\<close>

lemma foldl_setAdd:
  "foldl setAdd acc xs = acc @ foldl setAdd [] [x \<leftarrow> xs. x \<notin> set acc]"
proof (induction "length xs" arbitrary: xs acc rule: less_induct)
  case less
  show ?case
  proof (cases xs)
    case Nil
    then show ?thesis by simp
  next
    case (Cons x ys)
    show ?thesis
    proof (cases "x \<in> set acc")
      case True
      then show ?thesis using less [of ys acc] Cons by (simp add: setAdd_def)
    next
      case False
      have "foldl setAdd (acc @ [x]) ys = (acc @ [x]) @ foldl setAdd [] [y \<leftarrow> ys. y \<notin> set (acc @ [x])]"
        using less [of ys "acc @ [x]"] Cons by simp
      moreover have "length [y \<leftarrow> ys. y \<notin> set acc] < length xs"
        using Cons by (simp add: le_imp_less_Suc)
      then have "foldl setAdd [x] [y \<leftarrow> ys. y \<notin> set acc] =
          [x] @ foldl setAdd [] [y \<leftarrow> [y \<leftarrow> ys. y \<notin> set acc]. y \<notin> set [x]]"
        by (rule less)
      moreover have "[y \<leftarrow> [y \<leftarrow> ys. y \<notin> set acc]. y \<notin> set [x]] = [y \<leftarrow> ys. y \<notin> set (acc @ [x])]"
        by (induction ys) auto
      ultimately show ?thesis using False Cons by (simp add: setAdd_def)
    qed
  qed
qed

lemma set_arrayFromSet: "set (arrayFromSet xs) = set xs"
proof -
  have "set (foldl setAdd acc xs) = set acc \<union> set xs" for acc
    by (induction xs arbitrary: acc) (auto simp: setAdd_def)
  then show ?thesis by (simp add: arrayFromSet_def)
qed

lemma distinct_arrayFromSet: "distinct (arrayFromSet xs)"
proof -
  have "distinct acc \<Longrightarrow> distinct (foldl setAdd acc xs)" for acc
    by (induction xs arbitrary: acc) (auto simp: setAdd_def)
  then show ?thesis by (simp add: arrayFromSet_def)
qed

text \<open>
  The array stored for a field that is an array on both sides: the duplicate-free cloud
  (target) elements come first, then the local (source) elements the cloud array lacks.
\<close>

lemma arrayFromSet_append:
  "arrayFromSet (tvs @ svs) = arrayFromSet tvs @ arrayFromSet [x \<leftarrow> svs. x \<notin> set tvs]"
proof -
  have "foldl setAdd [] (tvs @ svs) = foldl setAdd (foldl setAdd [] tvs) svs"
    by simp
  also have "\<dots> = foldl setAdd [] tvs @ foldl setAdd [] [x \<leftarrow> svs. x \<notin> set (foldl setAdd [] tvs)]"
    by (rule foldl_setAdd)
  finally show ?thesis
    using set_arrayFromSet [of tvs] by (simp add: arrayFromSet_def)
qed

text \<open>
  Claim C4, on two tests of the repository. "should handle nested objects": local
  \<^verbatim>\<open>{a: 1, b: 2}\<close> merged with cloud \<^verbatim>\<open>{b: 3, c: 4}\<close> gives \<^verbatim>\<open>{b: 2, c: 4, a: 1}\<close>, the
  object the claim names. "should handle arrays": local \<^verbatim>\<open>[1, 2, 3]\<close> merged with cloud
  \<^verbatim>\<open>[3, 4, 5]\<close> gives \<^verbatim>\<open>[3, 4, 5, 1, 2]\<close>, cloud elements first, where the claim and the
  test say \<^verbatim>\<open>[1, 2, 3, 4, 5]\<close>.
\<close>

theorem merge_puts_cloud_array_elements_first:
  "resolveConflict pf nestedStore (VRef 1) (VRef 3) ''merge'' =
     Some (Inr (VRef 4, nestedStore @
       [Obj [(''id'', VStr ''1''), (''nested'', VRef 5)],
        Obj [(''b'', VNum 2), (''c'', VNum 4), (''a'', VNum 1)]]))
   \<and> resolveConflict pf arraysStore (VRef 1) (VRef 3) ''merge'' =
     Some (Inr (VRef 4, arraysStore @
       [Obj [(''id'', VStr ''1''), (''array'', VRef 5)],
        Arr [VNum 3, VNum 4, VNum 5, VNum 1, VNum 2]]))"
  by (simp add: resolveConflict_def strategies_def mergeResolve_def arraysStore_def nestedStore_def
        cellAt_def setProp_def ownProp_def objectPrototypeKeys_def arrayFromSet_def setAdd_def
        eval_nat_numeral Let_def)

text \<open>
  Claim C5, on the repository's test "should handle circular references" and on a pair
  in which both records contain themselves. The merge returns a value in both cases:
  in the first the output refers to the cyclic local record, in the second the
  \<^verbatim>\<open>seen\<close> map hands back the output under construction and the output contains
  itself. No error is raised.
\<close>

theorem merge_returns_value_on_circular_input:
  "resolveConflict pf circularStore (VRef 0) (VRef 1) ''merge'' =
     Some (Inr (VRef 2, circularStore @
       [Obj [(''id'', VStr ''1''), (''content'', VStr ''cloud''), (''self'', VRef 0)]]))
   \<and> resolveConflict pf bothCircularStore (VRef 0) (VRef 1) ''merge'' =
     Some (Inr (VRef 2, bothCircularStore @
       [Obj [(''id'', VStr ''1''), (''self'', VRef 2)]]))"
  by (simp add: resolveConflict_def strategies_def mergeResolve_def circularStore_def
        bothCircularStore_def cellAt_def setProp_def ownProp_def objectPrototypeKeys_def
        eval_nat_numeral Let_def)

text \<open>
  A field of the local record that the cloud record lacks is taken over as it is,
  unless its name is one that every object inherits: \<^verbatim>\<open>'toString' in cloudData\<close>
  holds, so the local \<^verbatim>\<open>{ a: 1 }\<close> is merged into the inherited method, which is no
  object, and the field comes out as a new empty object.
\<close>

lemma merge_field_named_like_inherited_method:
  "resolveConflict pf inheritedKeyStore (VRef 1) (VRef 2) ''merge'' =
     Some (Inr (VRef 3, inheritedKeyStore @
       [Obj [(''id'', VStr ''1''), (''toString'', VRef 4)], Obj []]))"
  by (simp add: resolveConflict_def strategies_def mergeResolve_def inheritedKeyStore_def
        cellAt_def setProp_def ownProp_def objectPrototypeKeys_def eval_nat_numeral Let_def)

subsection \<open>Last write wins\<close>

text \<open>What \<^verbatim>\<open>new Date(field || '')\<close> makes of an absent field, of a string and of a number.\<close>

lemma newDate_absent: "newDate pf h (orEmpty VUndefined) = Inr None"
  by (simp add: orEmpty_def)

lemma newDate_string:
  "newDate pf h (orEmpty (VStr s)) = Inr (if s = [] then None else dateParse pf s)"
  by (simp add: orEmpty_def)

lemma newDate_number:
  "newDate pf h (orEmpty (VNum n)) = Inr (if n = 0 then None else timeClip n)"
  by (simp add: orEmpty_def)

lemma lastWriteWins_table:
  assumes "getProp h localData ''modificationDate'' = Inr localField"
    and "getProp h cloudData ''modificationDate'' = Inr cloudField"
    and "newDate pf h (orEmpty localField) = Inr l"
    and "newDate pf h (orEmpty cloudField) = Inr c"
  shows "resolveConflict pf h localData cloudData ''lastWriteWins'' =
           Some (Inr (if l = None \<and> c = None then localData
                      else if l = None then cloudData
                      else if c = None then localData
                      else if the l \<ge> the c then localData else cloudData, h))"
  using assms by (simp add: resolveConflict_def strategies_def lastWriteWins_def)

text \<open>
  Claim C6. Take two records whose \<^verbatim>\<open>modificationDate\<close> can be read, and let \<open>l\<close> and \<open>c\<close>
  be the time values that \<^verbatim>\<open>new Date\<close> makes of the local and of the cloud field
  (\<open>None\<close>: no valid date, as for an absent field and for a string that does not
  parse). The last-write-wins strategy returns the local record when neither side has
  a valid date, the cloud record when only the cloud side has one, the local record
  when only the local side has one, and, when both have one, the local record if its
  time value is greater or equal and the cloud record otherwise.
\<close>

theorem lastWriteWins_policy:
  assumes "getProp h localData ''modificationDate'' = Inr localField"
    and "getProp h cloudData ''modificationDate'' = Inr cloudField"
    and "newDate pf h (orEmpty localField) = Inr l"
    and "newDate pf h (orEmpty cloudField) = Inr c"
  shows "(l = None \<and> c = None \<longrightarrow>
            resolveConflict pf h localData cloudData ''lastWriteWins'' = Some (Inr (localData, h)))
       \<and> (l = None \<and> c \<noteq> None \<longrightarrow>
            resolveConflict pf h localData cloudData ''lastWriteWins'' = Some (Inr (cloudData, h)))
       \<and> (l \<noteq> None \<and> c = None \<longrightarrow>
            resolveConflict pf h localData cloudData ''lastWriteWins'' = Some (Inr (localData, h)))
       \<and> (\<forall>t1 t2. l = Some t1 \<and> c = Some t2 \<longrightarrow>
            resolveConflict pf h localData cloudData ''lastWriteWins'' =
              Some (Inr (if t1 \<ge> t2 then localData else cloudData, h)))"
  using lastWriteWins_table [OF assms] by auto

theorem lastWriteWins_policy_witness:
  "getProp (datedStore (Some ''invalid-date'') None) (VRef 0) ''modificationDate'' =
     Inr (VStr ''invalid-date'')
   \<and> getProp (datedStore (Some ''invalid-date'') None) (VRef 1) ''modificationDate'' = Inr VUndefined
   \<and> newDate testPlatform (datedStore (Some ''invalid-date'') None)
        (orEmpty (VStr ''invalid-date'')) = Inr None
   \<and> newDate testPlatform (datedStore (Some ''invalid-date'') None) (orEmpty VUndefined) = Inr None
   \<and> resolveConflict testPlatform (datedStore (Some ''invalid-date'') None) (VRef 0) (VRef 1)
        ''lastWriteWins'' = Some (Inr (VRef 0, datedStore (Some ''invalid-date'') None))
   \<and> resolveConflict testPlatform
        (datedStore (Some ''invalid-date'') (Some ''2023-07-03T13:00:00Z'')) (VRef 0) (VRef 1)
        ''lastWriteWins'' =
       Some (Inr (VRef 1, datedStore (Some ''invalid-date'') (Some ''2023-07-03T13:00:00Z'')))
   \<and> resolveConflict testPlatform
        (datedStore (Some ''2023-07-03T13:00:00Z'') None) (VRef 0) (VRef 1)
        ''lastWriteWins'' =
       Some (Inr (VRef 0, datedStore (Some ''2023-07-03T13:00:00Z'') None))
   \<and> resolveConflict testPlatform
        (datedStore (Some ''2023-07-03T13:00:00Z'') (Some ''2023-07-03T12:00:00Z'')) (VRef 0) (VRef 1)
        ''lastWriteWins'' =
       Some (Inr (VRef 0, datedStore (Some ''2023-07-03T13:00:00Z'') (Some ''2023-07-03T12:00:00Z'')))
   \<and> resolveConflict testPlatform
        (datedStore (Some ''2023-07-03T12:00:00Z'') (Some ''2023-07-03T13:00:00Z'')) (VRef 0) (VRef 1)
        ''lastWriteWins'' =
       Some (Inr (VRef 1, datedStore (Some ''2023-07-03T12:00:00Z'') (Some ''2023-07-03T13:00:00Z'')))
   \<and> resolveConflict testPlatform
        (datedStore (Some ''2023-07-03T13:00:00Z'') (Some ''2023-07-03T13:00:00Z'')) (VRef 0) (VRef 1)
        ''lastWriteWins'' =
       Some (Inr (VRef 0, datedStore (Some ''2023-07-03T13:00:00Z'') (Some ''2023-07-03T13:00:00Z'')))
   \<and> resolveConflict testPlatform numericDateStore (VRef 0) (VRef 1) ''lastWriteWins'' =
       Some (Inr (VRef 0, numericDateStore))"
proof -
  let ?field = "\<lambda>d. case d of None \<Rightarrow> VUndefined | Some s \<Rightarrow> VStr s"
  have gl: "getProp (datedStore l c) (VRef 0) ''modificationDate'' = Inr (?field l)" for l c
    by (cases l) (simp_all add: datedStore_def datedRecord_def cellAt_def ownProp_def)
  have gc: "getProp (datedStore l c) (VRef 1) ''modificationDate'' = Inr (?field c)" for l c
    by (cases c) (simp_all add: datedStore_def datedRecord_def cellAt_def ownProp_def)
  have absent: "newDate testPlatform h (orEmpty (?field None)) = Inr None" for h
    by (simp add: orEmpty_def)
  have inv: "newDate testPlatform h (orEmpty (?field (Some ''invalid-date''))) = Inr None" for h
    by (simp add: orEmpty_def testPlatform_def testDateParse_def)
  have t12: "newDate testPlatform h (orEmpty (?field (Some ''2023-07-03T12:00:00Z''))) =
      Inr (Some 1688385600000)" for h
    by (simp add: orEmpty_def testPlatform_def testDateParse_def)
  have t13: "newDate testPlatform h (orEmpty (?field (Some ''2023-07-03T13:00:00Z''))) =
      Inr (Some 1688389200000)" for h
    by (simp add: orEmpty_def testPlatform_def testDateParse_def)
  have nl: "getProp numericDateStore (VRef 0) ''modificationDate'' = Inr (VNum 1688389200000)"
    by (simp add: numericDateStore_def cellAt_def ownProp_def)
  have nc: "getProp numericDateStore (VRef 1) ''modificationDate'' =
      Inr (?field (Some ''2023-07-03T12:00:00Z''))"
    by (simp add: numericDateStore_def datedRecord_def cellAt_def ownProp_def)
  have num: "newDate testPlatform h (orEmpty (VNum 1688389200000)) = Inr (Some 1688389200000)" for h
    by (simp add: orEmpty_def timeClip_def)
  have c1: "resolveConflict testPlatform (datedStore (Some ''invalid-date'') None) (VRef 0) (VRef 1)
        ''lastWriteWins'' = Some (Inr (VRef 0, datedStore (Some ''invalid-date'') None))"
    using lastWriteWins_policy [OF gl gc inv absent] by simp
  have c2: "resolveConflict testPlatform
        (datedStore (Some ''invalid-date'') (Some ''2023-07-03T13:00:00Z'')) (VRef 0) (VRef 1)
        ''lastWriteWins'' =
       Some (Inr (VRef 1, datedStore (Some ''invalid-date'') (Some ''2023-07-03T13:00:00Z'')))"
    using lastWriteWins_policy [OF gl gc inv t13] by simp
  have c3: "resolveConflict testPlatform
        (datedStore (Some ''2023-07-03T13:00:00Z'') None) (VRef 0) (VRef 1)
        ''lastWriteWins'' =
       Some (Inr (VRef 0, datedStore (Some ''2023-07-03T13:00:00Z'') None))"
    using lastWriteWins_policy [OF gl gc t13 absent] by simp
  have c4: "resolveConflict testPlatform
        (datedStore (Some ''2023-07-03T13:00:00Z'') (Some ''2023-07-03T12:00:00Z'')) (VRef 0) (VRef 1)
        ''lastWriteWins'' =
       Some (Inr (VRef 0, datedStore (Some ''2023-07-03T13:00:00Z'') (Some ''2023-07-03T12:00:00Z'')))"
    using lastWriteWins_policy [OF gl gc t13 t12] by simp
  have c5: "resolveConflict testPlatform
        (datedStore (Some ''2023-07-03T12:00:00Z'') (Some ''2023-07-03T13:00:00Z'')) (VRef 0) (VRef 1)
        ''lastWriteWins'' =
       Some (Inr (VRef 1, datedStore (Some ''2023-07-03T12:00:00Z'') (Some ''2023-07-03T13:00:00Z'')))"
    using lastWriteWins_policy [OF gl gc t12 t13] by simp
  have c6: "resolveConflict testPlatform
        (datedStore (Some ''2023-07-03T13:00:00Z'') (Some ''2023-07-03T13:00:00Z'')) (VRef 0) (VRef 1)
        ''lastWriteWins'' =
       Some (Inr (VRef 0, datedStore (Some ''2023-07-03T13:00:00Z'') (Some ''2023-07-03T13:00:00Z'')))"
    using lastWriteWins_policy [OF gl gc t13 t13] by simp
  have c7: "resolveConflict testPlatform numericDateStore (VRef 0) (VRef 1) ''lastWriteWins'' =
       Some (Inr (VRef 0, numericDateStore))"
    using lastWriteWins_policy [OF nl nc num t12] by simp
  have h1: "getProp (datedStore (Some ''invalid-date'') None) (VRef 0) ''modificationDate'' =
      Inr (VStr ''invalid-date'')"
    using gl [of "Some ''invalid-date''" None] by simp
  have h2: "getProp (datedStore (Some ''invalid-date'') None) (VRef 1) ''modificationDate'' =
      Inr VUndefined"
    using gc [of "Some ''invalid-date''" None] by simp
  have h3: "newDate testPlatform (datedStore (Some ''invalid-date'') None)
        (orEmpty (VStr ''invalid-date'')) = Inr None"
    using inv by simp
  have h4: "newDate testPlatform (datedStore (Some ''invalid-date'') None) (orEmpty VUndefined) =
      Inr None"
    by (rule newDate_absent)
  from h1 h2 h3 h4 c1 c2 c3 c4 c5 c6 c7 show ?thesis
    by (intro conjI)
qed

text \<open>
  A record that is \<^verbatim>\<open>null\<close> or \<^verbatim>\<open>undefined\<close> has no \<^verbatim>\<open>modificationDate\<close> to read: the
  strategy throws a \<^verbatim>\<open>TypeError\<close>, which \<^verbatim>\<open>resolveConflict\<close> reports as its own
  error.
\<close>

lemma lastWriteWins_null_record_throws:
  "resolveConflict pf h VNull cloudData ''lastWriteWins'' =
     Some (Inl (AppError ''Failed to resolve conflict'' 500))"
  "resolveConflict pf h VUndefined cloudData ''lastWriteWins'' =
     Some (Inl (AppError ''Failed to resolve conflict'' 500))"
  by (simp_all add: resolveConflict_def strategies_def lastWriteWins_def)

subsection \<open>The merge always comes to an end\<close>

lemma finite_unseen: "finite (unseen N seen)"
  by (simp add: unseen_def)

lemma unseen_enter:
  assumes "s < N" and "seen s = None"
  shows "card (unseen N (seen(s \<mapsto> v))) < card (unseen N seen)"
proof (rule psubset_card_mono)
  show "finite (unseen N seen)" by (rule finite_unseen)
  have "s \<in> unseen N seen" using assms by (simp add: unseen_def)
  moreover have "s \<notin> unseen N (seen(s \<mapsto> v))" by (simp add: unseen_def)
  moreover have "unseen N (seen(s \<mapsto> v)) \<subseteq> unseen N seen" by (auto simp: unseen_def split: if_splits)
  ultimately show "unseen N (seen(s \<mapsto> v)) \<subset> unseen N seen" by blast
qed

lemma unseen_mono:
  assumes "\<forall>a. seen a \<noteq> None \<longrightarrow> seen' a \<noteq> None"
  shows "card (unseen N seen') \<le> card (unseen N seen)"
proof (rule card_mono)
  show "finite (unseen N seen)" by (rule finite_unseen)
  show "unseen N seen' \<subseteq> unseen N seen" using assms by (auto simp: unseen_def)
qed

lemma storeInv_append: "storeInv strict N h \<Longrightarrow> storeInv strict N (h @ cs)"
  by (simp add: storeInv_def nth_append)

lemma storeInv_setProp:
  "storeInv strict N h \<Longrightarrow> N \<le> out \<Longrightarrow> storeInv strict N (setProp h out key v)"
  by (auto simp: storeInv_def setProp_def cellAt_def split: option.splits cell.splits)

lemma map_of_valBelow:
  "list_all (valBelow N) (map snd kvs) \<Longrightarrow> map_of kvs key = Some v \<Longrightarrow> valBelow N v"
  by (induction kvs) (auto split: if_splits)

lemma ownProp_below:
  "list_all (valBelow N) (map snd kvs) \<Longrightarrow> valBelow N (ownProp kvs key)"
  using map_of_valBelow [of N kvs key] by (simp add: ownProp_def split: option.splits)

lemma elementProp_below:
  assumes "list_all (valBelow N) vs"
  shows "valBelow N (elementProp vs key)"
proof -
  have "map snd (indexed vs) = vs" by (simp add: indexed_def)
  with assms have "list_all (valBelow N) (map snd (indexed vs))" by simp
  then have "valBelow N (ownProp (indexed vs) key)" by (rule ownProp_below)
  then show ?thesis by (simp add: elementProp_def)
qed

lemma getProp_VRef: "\<exists>v. getProp h (VRef s) key = Inr v"
  by simp

lemma getProp_below:
  assumes inv: "storeInv strict N h" and s: "s < N" and g: "getProp h (VRef s) key = Inr v"
  shows "valBelow N v"
proof -
  from inv s have c: "cellBelow N (h ! s)" and l: "s < length h" by (auto simp: storeInv_def)
  show ?thesis
  proof (cases "h ! s")
    case (Obj kvs)
    with c have "list_all (valBelow N) (map snd kvs)" by simp
    then have "valBelow N (ownProp kvs key)" by (rule ownProp_below)
    with Obj l g show ?thesis by (auto simp: cellAt_def)
  next
    case (Arr vs)
    with c have "list_all (valBelow N) vs" by simp
    then have "valBelow N (elementProp vs key)" by (rule elementProp_below)
    with Arr l g show ?thesis by (auto simp: cellAt_def)
  qed
qed

text \<open>Among records without arrays, no field of a record is an array.\<close>

lemma strict_no_array:
  assumes "storeInv True N h" and "valBelow N v"
  shows "\<not> isArray h v"
proof (cases v)
  case (VRef r)
  with assms(2) have "r < N" by simp
  then have "r < length h" and "isObjCell (h ! r)" using assms(1) by (auto simp: storeInv_def)
  then show ?thesis using VRef by (cases "h ! r") (simp_all add: cellAt_def)
qed simp_all

lemma isObject_VRef: "isObject h v \<Longrightarrow> \<exists>s. v = VRef s"
  by (cases v) auto

lemma mergedOk_Inr [simp]:
  "mergedOk strict N seen (Some (Inr (h', seen'))) =
     (storeInv strict N h' \<and> (\<forall>a. seen a \<noteq> None \<longrightarrow> seen' a \<noteq> None))"
  by (simp add: mergedOk_def)

lemma mergedOk_Inl [simp]: "mergedOk strict N seen (Some (Inl e)) = (\<not> strict)"
  by (simp add: mergedOk_def)

lemma mergedOk_None [simp]: "\<not> mergedOk strict N seen None"
  by (simp add: mergedOk_def)

lemma mergedOk_trans:
  "mergedOk strict N seen' r \<Longrightarrow> \<forall>a. seen a \<noteq> None \<longrightarrow> seen' a \<noteq> None \<Longrightarrow> mergedOk strict N seen r"
  by (auto simp: mergedOk_def split: option.splits sum.splits)

lemma mergeKeys_total:
  assumes deep: "\<And>target source h seen.
      storeInv strict N h \<Longrightarrow> valBelow N source \<Longrightarrow> isObject h source \<Longrightarrow>
      card (unseen N seen) < n \<Longrightarrow>
      mergedOk strict N seen (map_option (map_sum id snd) (deepMerge n target source (h, seen)))"
  shows "storeInv strict N h \<Longrightarrow> s < N \<Longrightarrow> N \<le> output \<Longrightarrow> card (unseen N seen) < n \<Longrightarrow>
         mergedOk strict N seen (mergeKeys n (VRef t) (VRef s) output keys (h, seen))"
proof (induction keys arbitrary: h seen)
  case Nil
  then show ?case by simp
next
  case (Cons key keys)
  obtain sv where sv: "getProp h (VRef s) key = Inr sv"
    using getProp_VRef by blast
  obtain tv where tv: "getProp h (VRef t) key = Inr tv"
    using getProp_VRef by blast
  have svb: "valBelow N sv" using Cons.prems(1,2) sv by (rule getProp_below)
  show ?case
  proof (cases "isArray h sv")
    case True
    have ns: "\<not> strict"
    proof
      assume strict
      with Cons.prems(1) have "storeInv True N h" by simp
      then have "\<not> isArray h sv" using svb by (rule strict_no_array)
      with True show False by simp
    qed
    show ?thesis
    proof (cases "iterate h tv")
      case (Inl e)
      with True ns sv tv show ?thesis by simp
    next
      case tvs: (Inr tvs)
      show ?thesis
      proof (cases "iterate h sv")
        case (Inl e)
        with True tvs ns sv tv show ?thesis by simp
      next
        case (Inr svs)
        let ?h' = "setProp (h @ [Arr (arrayFromSet (tvs @ svs))]) output key (VRef (length h))"
        have "storeInv strict N ?h'"
          using Cons.prems(1,3) by (simp add: storeInv_append storeInv_setProp)
        then have "mergedOk strict N seen (mergeKeys n (VRef t) (VRef s) output keys (?h', seen))"
          using Cons.IH [of ?h' seen] Cons.prems(2,3,4) by simp
        with True tvs Inr sv tv show ?thesis by simp
      qed
    qed
  next
    case notArr: False
    show ?thesis
    proof (cases "isObject h sv")
      case False
      have "storeInv strict N (setProp h output key sv)"
        using Cons.prems(1,3) by (rule storeInv_setProp)
      then have "mergedOk strict N seen (mergeKeys n (VRef t) (VRef s) output keys (setProp h output key sv, seen))"
        using Cons.IH [of "setProp h output key sv" seen] Cons.prems(2,3,4) by simp
      with notArr False sv show ?thesis by simp
    next
      case isObj: True
      show ?thesis
      proof (cases "hasKey h (VRef t) key")
        case False
        have "storeInv strict N (setProp h output key sv)"
          using Cons.prems(1,3) by (rule storeInv_setProp)
        then have "mergedOk strict N seen (mergeKeys n (VRef t) (VRef s) output keys (setProp h output key sv, seen))"
          using Cons.IH [of "setProp h output key sv" seen] Cons.prems(2,3,4) by simp
        with notArr isObj False sv show ?thesis by simp
      next
        case has: True
        have d: "mergedOk strict N seen (map_option (map_sum id snd) (deepMerge n tv sv (h, seen)))"
          using deep [of h sv seen tv] Cons.prems(1,4) svb isObj by simp
        show ?thesis
        proof (cases "deepMerge n tv sv (h, seen)")
          case None
          with d show ?thesis by simp
        next
          case (Some r)
          show ?thesis
          proof (cases r)
            case (Inl e)
            with Some notArr isObj has d sv tv show ?thesis by simp
          next
            case (Inr x)
            obtain v h' seen' where x: "x = (v, h', seen')" by (cases x)
            have inv': "storeInv strict N h'" and grow: "\<forall>a. seen a \<noteq> None \<longrightarrow> seen' a \<noteq> None"
              using d Some Inr x by simp_all
            have "storeInv strict N (setProp h' output key v)"
              using inv' Cons.prems(3) by (rule storeInv_setProp)
            moreover have "card (unseen N seen') < n"
              using unseen_mono [OF grow, of N] Cons.prems(4) by simp
            ultimately have "mergedOk strict N seen' (mergeKeys n (VRef t) (VRef s) output keys (setProp h' output key v, seen'))"
              using Cons.IH [of "setProp h' output key v" seen'] Cons.prems(2,3) by simp
            then have "mergedOk strict N seen (mergeKeys n (VRef t) (VRef s) output keys (setProp h' output key v, seen'))"
              using grow by (rule mergedOk_trans)
            with Some Inr x notArr isObj has sv tv show ?thesis by simp
          qed
        qed
      qed
    qed
  qed
qed

lemma deepMerge_total:
  "storeInv strict N h \<Longrightarrow> valBelow N source \<Longrightarrow> (strict \<longrightarrow> (\<exists>s. source = VRef s)) \<Longrightarrow>
   card (unseen N seen) < n \<Longrightarrow>
   mergedOk strict N seen (map_option (map_sum id snd) (deepMerge n target source (h, seen)))"
proof (induction n arbitrary: target source h seen)
  case 0
  then show ?case by simp
next
  case (Suc n)
  show ?case
  proof (cases "seenGet seen source")
    case (Some out)
    with Suc.prems(1) show ?thesis by simp
  next
    case None
    show ?thesis
    proof (cases "\<exists>s. source = VRef s")
      case False
      then have ns: "\<not> strict" using Suc.prems(3) by blast
      from False None ns show ?thesis by (cases source) simp_all
    next
      case True
      then obtain s where VRef: "source = VRef s" by blast
      with Suc.prems(2) have s: "s < N" by simp
      from None VRef have fresh: "seen s = None" by simp
      let ?output = "length h"
      let ?h1 = "h @ [Obj (spreadProps h target)]"
      let ?seen1 = "seen(s \<mapsto> VRef ?output)"
      have out: "N \<le> ?output" using Suc.prems(1) by (simp add: storeInv_def)
      have inv1: "storeInv strict N ?h1" using Suc.prems(1) by (rule storeInv_append)
      have grow: "\<forall>a. seen a \<noteq> None \<longrightarrow> ?seen1 a \<noteq> None" by simp
      let ?mk = "mergeKeys n target source ?output (objectKeys ?h1 source) (?h1, ?seen1)"
      have eq: "deepMerge (Suc n) target source (h, seen) =
          (if isObject ?h1 target \<and> isObject ?h1 source then
             (case ?mk of
                None \<Rightarrow> None
              | Some (Inl e) \<Rightarrow> Some (Inl e)
              | Some (Inr (h2, seen2)) \<Rightarrow> Some (Inr (VRef ?output, h2, seen2)))
           else Some (Inr (VRef ?output, ?h1, ?seen1)))"
        using None VRef by (simp add: Let_def)
      show ?thesis
      proof (cases "isObject ?h1 target \<and> isObject ?h1 source")
        case False
        then have "deepMerge (Suc n) target source (h, seen) = Some (Inr (VRef ?output, ?h1, ?seen1))"
          unfolding eq by (rule if_not_P)
        with inv1 show ?thesis by simp
      next
        case True
        then have eq': "deepMerge (Suc n) target source (h, seen) =
             (case ?mk of
                None \<Rightarrow> None
              | Some (Inl e) \<Rightarrow> Some (Inl e)
              | Some (Inr (h2, seen2)) \<Rightarrow> Some (Inr (VRef ?output, h2, seen2)))"
          unfolding eq by (rule if_P)
        have "card (unseen N ?seen1) < card (unseen N seen)"
          using s fresh by (rule unseen_enter)
        then have c1: "card (unseen N ?seen1) < n" using Suc.prems(4) by arith
        have ih: "\<And>target source h seen.
            storeInv strict N h \<Longrightarrow> valBelow N source \<Longrightarrow> isObject h source \<Longrightarrow>
            card (unseen N seen) < n \<Longrightarrow>
            mergedOk strict N seen (map_option (map_sum id snd) (deepMerge n target source (h, seen)))"
          using Suc.IH isObject_VRef by blast
        from True obtain t where t: "target = VRef t"
          using isObject_VRef by blast
        have "mergedOk strict N ?seen1
            (mergeKeys n (VRef t) (VRef s) ?output (objectKeys ?h1 source) (?h1, ?seen1))"
          using mergeKeys_total [of strict N n ?h1 s ?output ?seen1 t "objectKeys ?h1 source", OF ih]
            inv1 s out c1 by blast
        then have "mergedOk strict N ?seen1 ?mk"
          using t VRef by simp
        then have m: "mergedOk strict N seen ?mk"
          using grow by (rule mergedOk_trans)
        show ?thesis
        proof (cases ?mk)
          case None
          with m show ?thesis by simp
        next
          case (Some r)
          show ?thesis
          proof (cases r)
            case (Inl e)
            with Some m show ?thesis by (simp only: eq') simp
          next
            case (Inr t)
            obtain h2 seen2 where "t = (h2, seen2)" by (cases t)
            with Some Inr m show ?thesis by (simp only: eq') simp
          qed
        qed
      qed
    qed
  qed
qed

lemma mergedOk_not_None: "mergedOk strict N seen (map_option f r) \<Longrightarrow> r \<noteq> None"
  by (cases r) simp_all

lemma mergedOk_strict_returns:
  "mergedOk True N seen (map_option (map_sum id snd) r) \<Longrightarrow> \<exists>v h' seen'. r = Some (Inr (v, h', seen'))"
proof (cases r)
  case None
  assume "mergedOk True N seen (map_option (map_sum id snd) r)"
  with None show ?thesis by simp
next
  case (Some a)
  assume m: "mergedOk True N seen (map_option (map_sum id snd) r)"
  show ?thesis
  proof (cases a)
    case (Inl e)
    with Some m show ?thesis by simp
  next
    case (Inr t)
    obtain v h' seen' where "t = (v, h', seen')" by (cases t)
    with Some Inr show ?thesis by simp
  qed
qed

lemma wellFormed_storeInv:
  "wellFormed h \<Longrightarrow> strict \<longrightarrow> list_all isObjCell h \<Longrightarrow> storeInv strict (length h) h"
  by (simp add: wellFormed_def storeInv_def list_all_length)

text \<open>
  On a store of plain data, merging never reaches the depth bound that
  \<open>mergeResolve\<close> sets: it returns a value or throws, whether or not the records contain
  themselves.
\<close>

lemma mergeResolve_total:
  assumes "wellFormed h" and "valBelow (length h) localData"
  shows "mergeResolve h localData cloudData \<noteq> None"
proof -
  have "card (unseen (length h) Map.empty) < Suc (length h)"
    by (simp add: unseen_def)
  then have "mergedOk False (length h) Map.empty
      (map_option (map_sum id snd) (deepMerge (Suc (length h)) cloudData localData (h, Map.empty)))"
    using deepMerge_total [of False "length h" h localData Map.empty "Suc (length h)" cloudData]
      wellFormed_storeInv [of h False] assms by blast
  then have "deepMerge (Suc (length h)) cloudData localData (h, Map.empty) \<noteq> None"
    by (rule mergedOk_not_None)
  then show ?thesis
    unfolding mergeResolve_def .
qed

text \<open>
  When the store holds plain objects only (no arrays), merging a local record always
  returns a value: nothing in \<open>deepMerge\<close> rejects a record for containing itself or for
  sharing an object with the other record.
\<close>

lemma mergeResolve_objects_returns:
  assumes "wellFormed h" and "list_all isObjCell h" and "s < length h"
  shows "\<exists>v h' seen'. mergeResolve h (VRef s) cloudData = Some (Inr (v, h', seen'))"
proof -
  have "card (unseen (length h) Map.empty) < Suc (length h)"
    by (simp add: unseen_def)
  then have "mergedOk True (length h) Map.empty
      (map_option (map_sum id snd) (deepMerge (Suc (length h)) cloudData (VRef s) (h, Map.empty)))"
    using deepMerge_total [of True "length h" h "VRef s" Map.empty "Suc (length h)" cloudData]
      wellFormed_storeInv [of h True] assms by simp
  then show ?thesis
    unfolding mergeResolve_def by (rule mergedOk_strict_returns)
qed

text \<open>The records of the claims above are plain data.\<close>

lemma test_records_wellFormed:
  "wellFormed arraysStore"
  "wellFormed nestedStore"
  "wellFormed circularStore"
  "wellFormed bothCircularStore"
  "wellFormed inheritedKeyStore"
  "wellFormed (datedStore l c)"
  "wellFormed numericDateStore"
  by (simp_all add: wellFormed_def arraysStore_def nestedStore_def circularStore_def
        bothCircularStore_def inheritedKeyStore_def datedStore_def datedRecord_def
        numericDateStore_def ordinaryKey_def split: option.splits)

subsection \<open>The depth bound does not change a result\<close>

lemma mergeKeys_more_depth:
  assumes deep: "\<And>target source st r.
      deepMerge n target source st = Some r \<Longrightarrow> deepMerge (n + k) target source st = Some r"
  shows "mergeKeys n target source output keys st = Some r \<Longrightarrow>
         mergeKeys (n + k) target source output keys st = Some r"
proof (induction keys arbitrary: st r)
  case Nil
  then show ?case by (cases st) simp
next
  case (Cons key keys)
  obtain h seen where st: "st = (h, seen)" by (cases st)
  show ?case
  proof (cases "getProp h source key")
    case (Inl e)
    with Cons.prems st show ?thesis by simp
  next
    case sv: (Inr sv)
    show ?thesis
    proof (cases "isArray h sv")
      case True
      with Cons.prems st sv show ?thesis
        by (auto split: sum.splits intro: Cons.IH)
    next
      case notArr: False
      show ?thesis
      proof (cases "isObject h sv \<and> hasKey h target key")
        case False
        then have "mergeKeys n target source output keys (setProp h output key sv, seen) = Some r"
          using Cons.prems st notArr sv by (auto split: if_splits)
        then have "mergeKeys (n + k) target source output keys (setProp h output key sv, seen) = Some r"
          by (rule Cons.IH)
        with False st notArr sv show ?thesis by auto
      next
        case True
        show ?thesis
        proof (cases "getProp h target key")
          case (Inl e)
          with Cons.prems st notArr True sv show ?thesis by simp
        next
          case tv: (Inr tv)
          show ?thesis
          proof (cases "deepMerge n tv sv (h, seen)")
            case None
            with Cons.prems st notArr True sv tv show ?thesis by simp
          next
            case (Some x)
            then have more: "deepMerge (n + k) tv sv (h, seen) = Some x"
              by (rule deep)
            show ?thesis
            proof (cases x)
              case (Inl e)
              with Cons.prems st notArr True Some more sv tv show ?thesis by simp
            next
              case (Inr y)
              obtain v h' seen' where y: "y = (v, h', seen')" by (cases y)
              have "mergeKeys n target source output keys (setProp h' output key v, seen') = Some r"
                using Cons.prems st notArr True Some Inr y sv tv by simp
              then have "mergeKeys (n + k) target source output keys (setProp h' output key v, seen') = Some r"
                by (rule Cons.IH)
              with st notArr True more Inr y sv tv show ?thesis by simp
            qed
          qed
        qed
      qed
    qed
  qed
qed

lemma deepMerge_more_depth:
  "deepMerge n target source st = Some r \<Longrightarrow> deepMerge (n + k) target source st = Some r"
proof (induction n arbitrary: target source st r)
  case 0
  then show ?case by simp
next
  case (Suc n)
  obtain h seen where st: "st = (h, seen)" by (cases st)
  have mk: "\<And>target source output keys st r.
      mergeKeys n target source output keys st = Some r \<Longrightarrow>
      mergeKeys (n + k) target source output keys st = Some r"
    using mergeKeys_more_depth [of n k] Suc.IH by blast
  show ?case
  proof (cases "seenGet seen source")
    case (Some out)
    with Suc.prems st show ?thesis by simp
  next
    case None
    show ?thesis
    proof (cases source)
      case (VRef s)
      let ?h1 = "h @ [Obj (spreadProps h target)]"
      let ?seen1 = "seen(s \<mapsto> VRef (length h))"
      show ?thesis
      proof (cases "isObject ?h1 target \<and> isObject ?h1 source")
        case False
        with Suc.prems st None VRef show ?thesis by (auto simp: Let_def)
      next
        case True
        show ?thesis
        proof (cases "mergeKeys n target source (length h) (objectKeys ?h1 source) (?h1, ?seen1)")
          case None': None
          with Suc.prems st None VRef True show ?thesis by (simp add: Let_def)
        next
          case (Some x)
          then have "mergeKeys (n + k) target source (length h) (objectKeys ?h1 source) (?h1, ?seen1) = Some x"
            by (rule mk)
          with Suc.prems st None VRef True Some show ?thesis by (simp add: Let_def)
        qed
      qed
    qed (use Suc.prems st None in simp_all)
  qed
qed

section \<open>Splicing and splitting\<close>

subsection \<open>The first occurrence of a pattern\<close>

lemma indexOfFrom_found:
  "take (length pat) (drop k xs) = pat \<Longrightarrow> k \<le> length xs \<Longrightarrow>
   \<forall>j<k. take (length pat) (drop j xs) \<noteq> pat \<Longrightarrow>
   indexOfFrom i pat xs = int (i + k)"
proof (induction xs arbitrary: i k)
  case Nil
  then show ?case by auto
next
  case (Cons x xs)
  show ?case
  proof (cases k)
    case 0
    with Cons.prems show ?thesis by simp
  next
    case (Suc k')
    have head: "take (length pat) (x # xs) \<noteq> pat"
      using Cons.prems(3) Suc by (metis drop0 zero_less_Suc)
    have "\<forall>j<k'. take (length pat) (drop j xs) \<noteq> pat"
    proof (intro allI impI)
      fix j assume "j < k'"
      then have "Suc j < k" using Suc by simp
      then have "take (length pat) (drop (Suc j) (x # xs)) \<noteq> pat"
        using Cons.prems(3) by blast
      then show "take (length pat) (drop j xs) \<noteq> pat" by simp
    qed
    then have "indexOfFrom (Suc i) pat xs = int (Suc i + k')"
      using Cons.IH [of k' "Suc i"] Cons.prems(1,2) Suc by simp
    with head Suc show ?thesis by simp
  qed
qed

lemma indexOfFrom_range:
  "indexOfFrom i pat xs = -1 \<or> (int i \<le> indexOfFrom i pat xs \<and> indexOfFrom i pat xs \<le> int (i + length xs))"
proof (induction xs arbitrary: i)
  case Nil
  then show ?case by simp
next
  case (Cons x xs)
  show ?case
    using Cons.IH [of "Suc i"] by auto
qed

lemma indexOfFrom_first:
  "indexOfFrom i pat xs = int (i + k) \<Longrightarrow>
   take (length pat) (drop k xs) = pat \<and> (\<forall>j<k. take (length pat) (drop j xs) \<noteq> pat)"
proof (induction xs arbitrary: i k)
  case Nil
  then show ?case by (auto split: if_splits)
next
  case (Cons x xs)
  show ?case
  proof (cases "take (length pat) (x # xs) = pat")
    case True
    with Cons.prems have "k = 0" by simp
    with True show ?thesis by simp
  next
    case False
    with Cons.prems have rec: "indexOfFrom (Suc i) pat xs = int (i + k)" by simp
    have "k \<noteq> 0"
    proof
      assume "k = 0"
      with rec have "indexOfFrom (Suc i) pat xs = int i" by simp
      with indexOfFrom_range [of "Suc i" pat xs] show False by auto
    qed
    then obtain k' where k: "k = Suc k'" by (cases k) auto
    with rec have "indexOfFrom (Suc i) pat xs = int (Suc i + k')" by simp
    then have ih: "take (length pat) (drop k' xs) = pat \<and> (\<forall>j<k'. take (length pat) (drop j xs) \<noteq> pat)"
      by (rule Cons.IH)
    have "\<forall>j<k. take (length pat) (drop j (x # xs)) \<noteq> pat"
    proof (intro allI impI)
      fix j assume "j < k"
      show "take (length pat) (drop j (x # xs)) \<noteq> pat"
      proof (cases j)
        case 0
        with False show ?thesis by simp
      next
        case (Suc j')
        with \<open>j < k\<close> k have "j' < k'" by simp
        with ih Suc show ?thesis by simp
      qed
    qed
    with ih k show ?thesis by simp
  qed
qed

lemma indexOfFrom_absent:
  "pat \<noteq> [] \<Longrightarrow> \<forall>j. take (length pat) (drop j xs) \<noteq> pat \<Longrightarrow> indexOfFrom i pat xs = -1"
proof (induction xs arbitrary: i)
  case Nil
  then show ?case by simp
next
  case (Cons x xs)
  have "take (length pat) (x # xs) \<noteq> pat"
    using Cons.prems(2) by (metis drop0)
  moreover have "\<forall>j. take (length pat) (drop j xs) \<noteq> pat"
  proof
    fix j
    have "take (length pat) (drop (Suc j) (x # xs)) \<noteq> pat" using Cons.prems(2) by blast
    then show "take (length pat) (drop j xs) \<noteq> pat" by simp
  qed
  ultimately show ?case using Cons.IH [of "Suc i"] Cons.prems(1) by simp
qed

text \<open>A two-byte pattern occurs at \<open>j\<close> exactly when the two bytes there are its bytes.\<close>

lemma occurs2:
  "take (length [a, b]) (drop j xs) = [a, b] \<longleftrightarrow> Suc j < length xs \<and> xs ! j = a \<and> xs ! Suc j = b"
proof
  assume t: "take (length [a, b]) (drop j xs) = [a, b]"
  then have t2: "take 2 (drop j xs) = [a, b]" by (simp add: numeral_2_eq_2)
  then have "length (take 2 (drop j xs)) = 2" by simp
  then have len: "Suc j < length xs" by (simp add: min_def split: if_splits)
  have "take 2 (drop j xs) ! 0 = a" "take 2 (drop j xs) ! 1 = b" using t2 by simp_all
  with len show "Suc j < length xs \<and> xs ! j = a \<and> xs ! Suc j = b" by simp
next
  assume a: "Suc j < length xs \<and> xs ! j = a \<and> xs ! Suc j = b"
  then have "j < length xs" and "Suc j < length xs" by simp_all
  then have "drop j xs = xs ! j # drop (Suc j) xs"
    and "drop (Suc j) xs = xs ! Suc j # drop (Suc (Suc j)) xs"
    by (simp_all only: Cons_nth_drop_Suc)
  then have "drop j xs = a # b # drop (Suc (Suc j)) xs" using a by simp
  then show "take (length [a, b]) (drop j xs) = [a, b]" by simp
qed

lemma xmp_no_FF: "CHR 0xFF \<notin> set xmpMetadata"
  by (simp add: xmpMetadata_def)

lemma xmp_first: "xmpMetadata \<noteq> [] \<and> xmpMetadata ! 0 \<noteq> CHR 0xD9"
  by (simp add: xmpMetadata_def)

lemma length_xmp: "length xmpMetadata = 671"
  by (simp add: xmpMetadata_def)

subsection \<open>Where the end-of-image marker of a spliced buffer is\<close>

lemma first_marker_facts:
  assumes "indexOf b [x, y] = int (length b) - 2" and "2 \<le> length b"
  shows "b ! (length b - 2) = x \<and> b ! (length b - 1) = y \<and>
         (\<forall>j. j + 2 < length b \<longrightarrow> \<not> (b ! j = x \<and> b ! Suc j = y))"
proof -
  have "indexOfFrom 0 [x, y] b = int (0 + (length b - 2))"
    using assms by (simp add: indexOf_def)
  then have f: "take (length [x, y]) (drop (length b - 2) b) = [x, y] \<and>
      (\<forall>j<length b - 2. take (length [x, y]) (drop j b) \<noteq> [x, y])"
    by (rule indexOfFrom_first)
  have "Suc (length b - 2) = length b - 1" using assms(2) by arith
  then have "b ! (length b - 2) = x \<and> b ! (length b - 1) = y"
    using f occurs2 [of x y "length b - 2" b] by simp
  moreover have "\<forall>j. j + 2 < length b \<longrightarrow> \<not> (b ! j = x \<and> b ! Suc j = y)"
  proof (intro allI impI)
    fix j assume j: "j + 2 < length b"
    then have "j < length b - 2" by arith
    then have "take (length [x, y]) (drop j b) \<noteq> [x, y]" using f by blast
    then show "\<not> (b ! j = x \<and> b ! Suc j = y)"
      using occurs2 [of x y j b] j by simp
  qed
  ultimately show ?thesis by blast
qed

lemma spliced_first_marker:
  assumes first: "indexOf jpeg [x, y] = int (length jpeg) - 2"
    and a: "a + 2 \<le> length jpeg"
    and nox: "x \<notin> set X" and X0: "X \<noteq> []" "X ! 0 \<noteq> y"
  shows "indexOf (take a jpeg @ X @ drop a jpeg @ M) [x, y] = int (length X + length jpeg) - 2"
proof -
  let ?S = "take a jpeg @ X @ drop a jpeg @ M"
  let ?n = "length X + length jpeg - 2"
  have len2: "2 \<le> length jpeg" using a by arith
  note jf = first_marker_facts [OF first len2]
  have lenA: "length (take a jpeg) = a" using a by simp
  have nth_A: "?S ! j = jpeg ! j" if "j < a" for j
    using that lenA by (simp add: nth_append)
  have nth_X: "?S ! j = X ! (j - a)" if "a \<le> j" "j < a + length X" for j
  proof -
    have "\<not> j < length (take a jpeg)" using that lenA by simp
    then have "?S ! j = (X @ drop a jpeg @ M) ! (j - a)"
      using lenA by (simp only: nth_append if_False)
    moreover have "j - a < length X" using that by arith
    ultimately show ?thesis by (simp add: nth_append)
  qed
  have nth_B: "?S ! j = jpeg ! (j - length X)" if "a + length X \<le> j" "j < length X + length jpeg" for j
  proof -
    have "\<not> j < length (take a jpeg)" using that lenA by simp
    then have "?S ! j = (X @ drop a jpeg @ M) ! (j - a)"
      using lenA by (simp only: nth_append if_False)
    moreover have "\<not> j - a < length X" using that by arith
    ultimately have "?S ! j = (drop a jpeg @ M) ! (j - a - length X)"
      by (simp only: nth_append if_False)
    moreover have "j - a - length X < length (drop a jpeg)" using that a by simp
    ultimately have "?S ! j = drop a jpeg ! (j - a - length X)"
      by (simp only: nth_append if_True)
    also have "\<dots> = jpeg ! (a + (j - a - length X))"
      using that a by simp
    also have "a + (j - a - length X) = j - length X"
      using that by arith
    finally show ?thesis .
  qed
  have at_n: "take (length [x, y]) (drop ?n ?S) = [x, y]"
  proof -
    have "?S ! ?n = jpeg ! (length jpeg - 2)"
    proof -
      have "?n - length X = length jpeg - 2" using len2 by arith
      moreover have "a + length X \<le> ?n" "?n < length X + length jpeg" using a by arith+
      ultimately show ?thesis using nth_B [of ?n] by simp
    qed
    moreover have "?S ! Suc ?n = jpeg ! (length jpeg - 1)"
    proof -
      have "Suc ?n - length X = length jpeg - 1" using len2 by arith
      moreover have "a + length X \<le> Suc ?n" "Suc ?n < length X + length jpeg" using a by arith+
      ultimately show ?thesis using nth_B [of "Suc ?n"] by simp
    qed
    moreover have "Suc ?n < length ?S" using a by simp
    ultimately show ?thesis
      using jf occurs2 [of x y ?n ?S] by simp
  qed
  have before: "\<forall>j<?n. take (length [x, y]) (drop j ?S) \<noteq> [x, y]"
  proof (intro allI impI)
    fix j assume j: "j < ?n"
    have "\<not> (?S ! j = x \<and> ?S ! Suc j = y)"
    proof
      assume occ: "?S ! j = x \<and> ?S ! Suc j = y"
      consider (inA) "Suc j < a" | (edge) "Suc j = a" | (inX) "a \<le> j" "j < a + length X"
        | (inB) "a + length X \<le> j"
        by arith
      then show False
      proof cases
        case inA
        then have "jpeg ! j = x \<and> jpeg ! Suc j = y"
          using occ nth_A [of j] nth_A [of "Suc j"] by simp
        moreover have "j + 2 < length jpeg" using inA a by arith
        ultimately show False using jf by blast
      next
        case edge
        then have "?S ! Suc j = X ! 0"
          using nth_X [of "Suc j"] X0 by simp
        with occ X0 show False by simp
      next
        case inX
        then have "?S ! j = X ! (j - a)" by (rule nth_X)
        moreover have "X ! (j - a) \<in> set X" using inX by simp
        ultimately show False using occ nox by simp
      next
        case inB
        have j1: "j < length X + length jpeg" "Suc j < length X + length jpeg" using j by arith+
        have "jpeg ! (j - length X) = x"
          using occ nth_B [of j] inB j1 by simp
        moreover have "jpeg ! Suc (j - length X) = y"
        proof -
          have "Suc j - length X = Suc (j - length X)" using inB by arith
          then show ?thesis using occ nth_B [of "Suc j"] inB j1 by simp
        qed
        moreover have "(j - length X) + 2 < length jpeg" using j inB by arith
        ultimately show False using jf by blast
      qed
    qed
    then show "take (length [x, y]) (drop j ?S) \<noteq> [x, y]"
      using occurs2 [of x y j ?S] by blast
  qed
  have "?n \<le> length ?S" using a by simp
  then have "indexOfFrom 0 [x, y] ?S = int (0 + ?n)"
    using indexOfFrom_found [OF at_n _ before] by blast
  moreover have "int ?n = int (length X + length jpeg) - 2" using len2 by simp
  ultimately show ?thesis by (simp add: indexOf_def)
qed

subsection \<open>The two conversions on files that exist\<close>

lemma tempPath_distinct:
  "tempPath d t ''.jpg'' \<noteq> tempPath d t ''.mp4''"
  "tempPath d t ''.jpg'' \<noteq> tempPath d t ''.mov''"
  "tempPath d t ''.mp4'' \<noteq> tempPath d t ''.mov''"
  by (simp_all add: tempPath_def)

lemma convertToAndroidMotionPhoto_ok:
  assumes "fs jpegPath = Some jpeg" and "fs movPath = Some mov"
    and "movToMp4 tool mov = Inr mp4"
    and "jpegPath \<noteq> tempPath tempDir now ''.mp4''"
  shows "fst (convertToAndroidMotionPhoto tool tempDir now fs jpegPath movPath) =
           Inr (embedMp4IntoJpeg jpeg mp4)"
  using assms
  by (simp add: convertToAndroidMotionPhoto_def convertToAndroidMotionPhotoTry_def Let_def
        convertMovToMp4_def runFfmpeg_def readFile_def unlink_def)

lemma extractJpegAndMp4_ok:
  assumes "fs input = Some b"
  shows "extractJpegAndMp4 fs input jpegOutput mp4Output =
           Inr (fs(jpegOutput \<mapsto> bufSlice b 0 (indexOf b [CHR 0xFF, CHR 0xD9] + 2),
                   mp4Output \<mapsto> bufSliceFrom b (indexOf b [CHR 0xFF, CHR 0xD9] + 2)))"
  using assms by (simp add: extractJpegAndMp4_def readFile_def writeFile_def Let_def)

lemma convertToAppleLivePhoto_ok:
  assumes "fs motionPhotoPath = Some b"
    and "mp4ToMov tool (bufSliceFrom b (indexOf b [CHR 0xFF, CHR 0xD9] + 2)) = Inr mov"
  shows "fst (convertToAppleLivePhoto tool tempDir timestamp fs motionPhotoPath) =
           Inr (bufSlice b 0 (indexOf b [CHR 0xFF, CHR 0xD9] + 2), mov)"
  using assms tempPath_distinct [of tempDir timestamp]
  by (simp add: convertToAppleLivePhoto_def convertToAppleLivePhotoTry_def Let_def
        extractJpegAndMp4_ok convertMp4ToMov_def runFfmpeg_def readFile_def unlinkAll_def)

subsection \<open>Decoding what was encoded\<close>

lemma clampIndex_nat: "0 \<le> i \<Longrightarrow> clampIndex b i = min (nat i) (length b)"
  by (simp add: clampIndex_def)

lemma bufSlice_prefix: "0 \<le> i \<Longrightarrow> bufSlice b 0 i = take (nat i) b"
  by (simp add: bufSlice_def clampIndex_def min_def)

lemma bufSliceFrom_suffix: "0 \<le> i \<Longrightarrow> bufSliceFrom b i = drop (nat i) b"
  by (simp add: bufSliceFrom_def clampIndex_def min_def)

text \<open>
  In an image that starts with \<^verbatim>\<open>FF D8\<close> and whose first \<^verbatim>\<open>FF D9\<close> is its last two
  bytes, the insertion point \<^verbatim>\<open>exifEnd\<close> lies before those last two bytes.
\<close>

lemma exifEnd_before_marker:
  assumes soi: "take 2 jpeg = [CHR 0xFF, CHR 0xD8]"
    and eoi: "indexOf jpeg [CHR 0xFF, CHR 0xD9] = int (length jpeg) - 2"
  shows "0 \<le> indexOf jpeg [CHR 0xFF, CHR 0xE1] + 2 \<and>
         nat (indexOf jpeg [CHR 0xFF, CHR 0xE1] + 2) + 2 \<le> length jpeg"
proof -
  have "length (take 2 jpeg) = 2" using soi by simp
  then have len2: "2 \<le> length jpeg" by (simp add: min_def split: if_splits)
  have j0: "jpeg ! 0 = CHR 0xFF" and j1: "jpeg ! 1 = CHR 0xD8"
  proof -
    have "take 2 jpeg ! 0 = CHR 0xFF" "take 2 jpeg ! 1 = CHR 0xD8" using soi by simp_all
    then show "jpeg ! 0 = CHR 0xFF" "jpeg ! 1 = CHR 0xD8" by simp_all
  qed
  note jf = first_marker_facts [OF eoi len2]
  have len4: "4 \<le> length jpeg"
  proof (rule ccontr)
    assume "\<not> 4 \<le> length jpeg"
    then consider "length jpeg = 2" | "length jpeg = 3" using len2 by arith
    then show False
    proof cases
      case 1
      then have "jpeg ! 1 = CHR 0xD9" using jf by simp
      with j1 show False by simp
    next
      case 2
      then have "jpeg ! 1 = CHR 0xFF" using jf by simp
      with j1 show False by simp
    qed
  qed
  let ?r = "indexOf jpeg [CHR 0xFF, CHR 0xE1]"
  have range: "?r = -1 \<or> (0 \<le> ?r \<and> ?r \<le> int (length jpeg))"
    using indexOfFrom_range [of 0 "[CHR 0xFF, CHR 0xE1]" jpeg] by (simp add: indexOf_def)
  show ?thesis
  proof (cases "?r = -1")
    case True
    with len4 show ?thesis by simp
  next
    case False
    with range obtain k where k: "?r = int k" "k \<le> length jpeg"
      by (metis nat_0_le nat_le_iff of_nat_0_le_iff)
    then have "indexOfFrom 0 [CHR 0xFF, CHR 0xE1] jpeg = int (0 + k)"
      by (simp add: indexOf_def)
    then have "take (length [CHR 0xFF, CHR 0xE1]) (drop k jpeg) = [CHR 0xFF, CHR 0xE1]"
      using indexOfFrom_first by blast
    then have occ: "Suc k < length jpeg" "jpeg ! Suc k = CHR 0xE1"
      using occurs2 [of "CHR 0xFF" "CHR 0xE1" k jpeg] by simp_all
    have "k + 4 \<le> length jpeg"
    proof (rule ccontr)
      assume "\<not> k + 4 \<le> length jpeg"
      then consider "Suc k = length jpeg - 1" | "Suc k = length jpeg - 2" using occ(1) by arith
      then show False
      proof cases
        case 1
        with jf occ(2) show False by simp
      next
        case 2
        with jf occ(2) show False by simp
      qed
    qed
    with k show ?thesis by simp
  qed
qed

lemma take_whole_prefix: "length P = n \<Longrightarrow> take n (P @ M) = P"
  by simp

lemma drop_whole_prefix: "length P = n \<Longrightarrow> drop n (P @ M) = M"
  by simp

lemma roundTrip_spliced:
  assumes f1: "fs jpegPath = Some jpeg" and f2: "fs movPath = Some mov"
    and t1: "movToMp4 tool mov = Inr mp4" and t2: "mp4ToMov tool mp4 = Inr mov'"
    and soi: "take 2 jpeg = [CHR 0xFF, CHR 0xD8]"
    and eoi: "indexOf jpeg [CHR 0xFF, CHR 0xD9] = int (length jpeg) - 2"
    and path: "jpegPath \<noteq> tempPath tempDir now1 ''.mp4''"
  shows "roundTrip tool tempDir now1 now2 fs jpegPath movPath motionPhotoPath =
           Inr (bufSlice jpeg 0 (indexOf jpeg [CHR 0xFF, CHR 0xE1] + 2) @ xmpMetadata @
                bufSliceFrom jpeg (indexOf jpeg [CHR 0xFF, CHR 0xE1] + 2), mov')
         \<and> bufSlice jpeg 0 (indexOf jpeg [CHR 0xFF, CHR 0xE1] + 2) @
           bufSliceFrom jpeg (indexOf jpeg [CHR 0xFF, CHR 0xE1] + 2) = jpeg"
proof -
  let ?e = "indexOf jpeg [CHR 0xFF, CHR 0xE1] + 2"
  let ?a = "nat ?e"
  have e: "0 \<le> ?e" and a: "?a + 2 \<le> length jpeg"
    using exifEnd_before_marker [OF soi eoi] by simp_all
  have A: "bufSlice jpeg 0 ?e = take ?a jpeg" using e by (rule bufSlice_prefix)
  have B: "bufSliceFrom jpeg ?e = drop ?a jpeg" using e by (rule bufSliceFrom_suffix)
  define P where "P = take ?a jpeg @ xmpMetadata @ drop ?a jpeg"
  have S: "embedMp4IntoJpeg jpeg mp4 = P @ mp4"
    by (simp add: embedMp4IntoJpeg_def Let_def A B P_def)
  have lenP: "length P = length xmpMetadata + length jpeg"
    using a by (simp add: P_def)
  have enc: "fst (convertToAndroidMotionPhoto tool tempDir now1 fs jpegPath movPath) = Inr (P @ mp4)"
    using convertToAndroidMotionPhoto_ok [OF f1 f2 t1 path] S by simp
  have "indexOf (take ?a jpeg @ xmpMetadata @ drop ?a jpeg @ mp4) [CHR 0xFF, CHR 0xD9] =
      int (length xmpMetadata + length jpeg) - 2"
    using spliced_first_marker [OF eoi a xmp_no_FF] xmp_first by blast
  then have idx: "indexOf (P @ mp4) [CHR 0xFF, CHR 0xD9] + 2 = int (length P)"
    using lenP by (simp add: P_def)
  have pre: "bufSlice (P @ mp4) 0 (indexOf (P @ mp4) [CHR 0xFF, CHR 0xD9] + 2) = P"
    by (simp add: idx bufSlice_prefix)
  have post: "bufSliceFrom (P @ mp4) (indexOf (P @ mp4) [CHR 0xFF, CHR 0xD9] + 2) = mp4"
    by (simp add: idx bufSliceFrom_suffix)
  obtain r fs1 where c1: "convertToAndroidMotionPhoto tool tempDir now1 fs jpegPath movPath = (r, fs1)"
    by (cases "convertToAndroidMotionPhoto tool tempDir now1 fs jpegPath movPath")
  with enc have r: "r = Inr (P @ mp4)" by simp
  have "fst (convertToAppleLivePhoto tool tempDir now2 (writeFile fs1 motionPhotoPath (P @ mp4)) motionPhotoPath) =
      Inr (bufSlice (P @ mp4) 0 (indexOf (P @ mp4) [CHR 0xFF, CHR 0xD9] + 2), mov')"
    by (rule convertToAppleLivePhoto_ok) (simp_all add: writeFile_def post t2)
  then have "roundTrip tool tempDir now1 now2 fs jpegPath movPath motionPhotoPath = Inr (P, mov')"
    using c1 r pre by (simp add: roundTrip_def)
  then show ?thesis by (simp add: A B P_def)
qed

subsection \<open>The claims about the transcoder\<close>

lemma tinyJpeg_facts:
  "take 2 tinyJpeg = [CHR 0xFF, CHR 0xD8]"
  "indexOf tinyJpeg [CHR 0xFF, CHR 0xD9] = int (length tinyJpeg) - 2"
  "bufSlice tinyJpeg 0 (indexOf tinyJpeg [CHR 0xFF, CHR 0xE1] + 2) = [CHR 0xFF, CHR 0xD8, CHR 0xFF, CHR 0xE1]"
  "bufSliceFrom tinyJpeg (indexOf tinyJpeg [CHR 0xFF, CHR 0xE1] + 2) = [CHR 0x00, CHR 0x02, CHR 0xFF, CHR 0xD9]"
  by (simp_all add: tinyJpeg_def indexOf_def bufSlice_def bufSliceFrom_def clampIndex_def)

lemma livePhotoFiles_facts:
  "livePhotoFiles ''photo.jpg'' = Some tinyJpeg"
  "livePhotoFiles ''clip.mov'' = Some ''mov-bytes''"
  "movToMp4 copyTool ''mov-bytes'' = Inr ''mov-bytes''"
  "mp4ToMov copyTool ''mov-bytes'' = Inr ''mov-bytes''"
  "''photo.jpg'' \<noteq> tempPath ''/tmp'' 1 ''.mp4''"
  by (simp_all add: livePhotoFiles_def copyTool_def tempPath_def)

text \<open>
  Claim C7, as amended. For a still image that starts with \<^verbatim>\<open>FF D8\<close> and whose first
  end-of-image marker \<^verbatim>\<open>FF D9\<close> is its last two bytes, and a video the tool transcodes in
  both directions, decoding the encoded pair returns the image with the XMP marker block
  inserted at \<^verbatim>\<open>exifEnd\<close> (the image's own bytes around the block are unchanged: taking
  the block out gives the image back), and the video as the tool re-encoded it twice.
\<close>

theorem roundTrip_returns_marked_image_and_reencoded_video:
  assumes "fs jpegPath = Some jpeg" and "fs movPath = Some mov"
    and "movToMp4 tool mov = Inr mp4" and "mp4ToMov tool mp4 = Inr mov'"
    and "take 2 jpeg = [CHR 0xFF, CHR 0xD8]"
    and "indexOf jpeg [CHR 0xFF, CHR 0xD9] = int (length jpeg) - 2"
    and "jpegPath \<noteq> tempPath tempDir now1 ''.mp4''"
  shows "roundTrip tool tempDir now1 now2 fs jpegPath movPath motionPhotoPath =
           Inr (bufSlice jpeg 0 (indexOf jpeg [CHR 0xFF, CHR 0xE1] + 2) @ xmpMetadata @
                bufSliceFrom jpeg (indexOf jpeg [CHR 0xFF, CHR 0xE1] + 2), mov')
         \<and> bufSlice jpeg 0 (indexOf jpeg [CHR 0xFF, CHR 0xE1] + 2) @
           bufSliceFrom jpeg (indexOf jpeg [CHR 0xFF, CHR 0xE1] + 2) = jpeg"
  using assms by (rule roundTrip_spliced)

theorem roundTrip_returns_marked_image_and_reencoded_video_witness:
  "livePhotoFiles ''photo.jpg'' = Some tinyJpeg \<and> livePhotoFiles ''clip.mov'' = Some ''mov-bytes''
   \<and> movToMp4 copyTool ''mov-bytes'' = Inr ''mov-bytes''
   \<and> mp4ToMov copyTool ''mov-bytes'' = Inr ''mov-bytes''
   \<and> take 2 tinyJpeg = [CHR 0xFF, CHR 0xD8]
   \<and> indexOf tinyJpeg [CHR 0xFF, CHR 0xD9] = int (length tinyJpeg) - 2
   \<and> ''photo.jpg'' \<noteq> tempPath ''/tmp'' 1 ''.mp4''
   \<and> roundTrip copyTool ''/tmp'' 1 2 livePhotoFiles ''photo.jpg'' ''clip.mov'' ''motion.jpg'' =
       Inr ([CHR 0xFF, CHR 0xD8, CHR 0xFF, CHR 0xE1] @ xmpMetadata @
            [CHR 0x00, CHR 0x02, CHR 0xFF, CHR 0xD9], ''mov-bytes'')
   \<and> [CHR 0xFF, CHR 0xD8, CHR 0xFF, CHR 0xE1] @ [CHR 0x00, CHR 0x02, CHR 0xFF, CHR 0xD9] = tinyJpeg"
  using roundTrip_returns_marked_image_and_reencoded_video
    [OF livePhotoFiles_facts(1,2,3,4) tinyJpeg_facts(1,2) livePhotoFiles_facts(5),
     of 2 "''motion.jpg''"]
    livePhotoFiles_facts tinyJpeg_facts
  by (simp only:) (simp add: tinyJpeg_def)

text \<open>
  Claim C7 as stated fails even with a tool that copies its input: the image that comes
  back holds the 671 bytes of the marker block and is not the image that went in.
\<close>

theorem roundTrip_image_differs:
  "roundTrip copyTool ''/tmp'' 1 2 livePhotoFiles ''photo.jpg'' ''clip.mov'' ''motion.jpg'' =
     Inr ([CHR 0xFF, CHR 0xD8, CHR 0xFF, CHR 0xE1] @ xmpMetadata @
          [CHR 0x00, CHR 0x02, CHR 0xFF, CHR 0xD9], ''mov-bytes'')
   \<and> [CHR 0xFF, CHR 0xD8, CHR 0xFF, CHR 0xE1] @ xmpMetadata @
       [CHR 0x00, CHR 0x02, CHR 0xFF, CHR 0xD9] \<noteq> tinyJpeg"
proof -
  have "roundTrip copyTool ''/tmp'' 1 2 livePhotoFiles ''photo.jpg'' ''clip.mov'' ''motion.jpg'' =
     Inr ([CHR 0xFF, CHR 0xD8, CHR 0xFF, CHR 0xE1] @ xmpMetadata @
          [CHR 0x00, CHR 0x02, CHR 0xFF, CHR 0xD9], ''mov-bytes'')"
    using roundTrip_spliced
      [OF livePhotoFiles_facts(1,2,3,4) tinyJpeg_facts(1,2) livePhotoFiles_facts(5),
       of 2 "''motion.jpg''"]
    by (simp only: tinyJpeg_facts)
  moreover have "length ([CHR 0xFF, CHR 0xD8, CHR 0xFF, CHR 0xE1] @ xmpMetadata @
       [CHR 0x00, CHR 0x02, CHR 0xFF, CHR 0xD9]) \<noteq> length tinyJpeg"
    by (simp add: length_xmp tinyJpeg_def)
  then have "[CHR 0xFF, CHR 0xD8, CHR 0xFF, CHR 0xE1] @ xmpMetadata @
       [CHR 0x00, CHR 0x02, CHR 0xFF, CHR 0xD9] \<noteq> tinyJpeg"
    by (metis (no_types))
  ultimately show ?thesis by (rule conjI)
qed

text \<open>
  Claim C8, on the input of the repository's test "should throw AppError if JPEG end
  marker is not found". The buffer holds no \<^verbatim>\<open>FF D9\<close>, \<^verbatim>\<open>indexOf\<close> answers \<open>-1\<close>, and
  \<^verbatim>\<open>extractJpegAndMp4\<close> writes the first byte as the image and the rest as the video
  instead of failing; with a tool that accepts those bytes,
  \<^verbatim>\<open>convertToAppleLivePhoto\<close> returns that split.
\<close>

theorem missing_end_marker_is_split_not_rejected:
  "indexOf ''invalid-content'' [CHR 0xFF, CHR 0xD9] = -1
   \<and> extractJpegAndMp4 invalidFiles ''artifacts/test.jpg'' ''artifacts/jpeg.jpg'' ''artifacts/video.mp4'' =
       Inr (invalidFiles(''artifacts/jpeg.jpg'' \<mapsto> ''i'', ''artifacts/video.mp4'' \<mapsto> ''nvalid-content''))
   \<and> fst (convertToAppleLivePhoto copyTool ''/test/temp'' 0 invalidFiles ''artifacts/test.jpg'') =
       Inr (''i'', ''nvalid-content'')"
proof -
  have i: "indexOf ''invalid-content'' [CHR 0xFF, CHR 0xD9] = -1"
    by (simp add: indexOf_def)
  have f: "invalidFiles ''artifacts/test.jpg'' = Some ''invalid-content''"
    by (simp add: invalidFiles_def)
  have s1: "bufSlice ''invalid-content'' 0 1 = ''i''"
    by (simp add: bufSlice_def clampIndex_def)
  have s2: "bufSliceFrom ''invalid-content'' 1 = ''nvalid-content''"
    by (simp add: bufSliceFrom_def clampIndex_def)
  have "extractJpegAndMp4 invalidFiles ''artifacts/test.jpg'' ''artifacts/jpeg.jpg'' ''artifacts/video.mp4'' =
       Inr (invalidFiles(''artifacts/jpeg.jpg'' \<mapsto> ''i'', ''artifacts/video.mp4'' \<mapsto> ''nvalid-content''))"
    using extractJpegAndMp4_ok [of invalidFiles "''artifacts/test.jpg''" "''invalid-content''"
        "''artifacts/jpeg.jpg''" "''artifacts/video.mp4''"] f
    by (simp add: i s1 s2)
  moreover have "fst (convertToAppleLivePhoto copyTool ''/test/temp'' 0 invalidFiles ''artifacts/test.jpg'') =
       Inr (''i'', ''nvalid-content'')"
    using convertToAppleLivePhoto_ok [of invalidFiles "''artifacts/test.jpg''" "''invalid-content''"
        copyTool "''nvalid-content''" "''/test/temp''" 0] f
    by (simp add: i s1 s2 copyTool_def)
  ultimately show ?thesis using i by simp
qed

end
